theory Spec2Isabelle
  imports Main "HOL-Library.Word"
begin

unbundle bit_operations_syntax

section \<open>Shared declarations (BOARD.h, BattleBoats.h, Message.h)\<close>

text \<open>
  The three headers are not among the source files; the names below are the ones the
  source files use, and \<^verbatim>\<open>STANDARD_ERROR\<close> is the value that C tests as false.  A C
  string is modelled by its content, the characters before the terminating NUL; a
  character array is a list of fixed length.
\<close>

datatype status = STANDARD_ERROR | SUCCESS

datatype BB_EventType =
    BB_EVENT_NO_EVENT
  | BB_EVENT_START_BUTTON
  | BB_EVENT_RESET_BUTTON
  | BB_EVENT_CHA_RECEIVED
  | BB_EVENT_ACC_RECEIVED
  | BB_EVENT_REV_RECEIVED
  | BB_EVENT_SHO_RECEIVED
  | BB_EVENT_RES_RECEIVED
  | BB_EVENT_MESSAGE_SENT
  | BB_EVENT_ERROR

text \<open>\<^verbatim>\<open>BB_Event\<close>: the fields \<^verbatim>\<open>type\<close>, \<^verbatim>\<open>param0\<close>, \<^verbatim>\<open>param1\<close>, \<^verbatim>\<open>param2\<close>
  (prefixed with \<open>e\<close> here, since \<^verbatim>\<open>Message\<close> has fields of the same names).\<close>

record BB_Event =
  etype :: BB_EventType
  eparam0 :: "16 word"
  eparam1 :: "16 word"
  eparam2 :: "16 word"

datatype MessageType =
    MESSAGE_NONE
  | MESSAGE_CHA
  | MESSAGE_ACC
  | MESSAGE_REV
  | MESSAGE_SHO
  | MESSAGE_RES

record Message =
  mtype :: MessageType
  mparam0 :: "16 word"
  mparam1 :: "16 word"
  mparam2 :: "16 word"

definition MESSAGE_MAX_LEN :: nat where
  "MESSAGE_MAX_LEN = 82"

definition MESSAGE_MAX_PAYLOAD_LEN :: nat where
  "MESSAGE_MAX_PAYLOAD_LEN = MESSAGE_MAX_LEN - 1 - 1 - 2 - 1 - 1"

definition MESSAGE_CHECKSUM_LEN :: nat where
  "MESSAGE_CHECKSUM_LEN = 2"

section \<open>The C library functions that Message.c calls\<close>

definition NUL :: char where "NUL = CHR 0x00"
definition CR :: char where "CR = CHR 0x0D"
definition LF :: char where "LF = CHR 0x0A"

text \<open>\<^verbatim>\<open>ctype.h\<close> in the C locale.\<close>

definition isspace :: "char \<Rightarrow> bool" where
  "isspace c = ((of_char c :: int) = 32 \<or> (9 \<le> (of_char c :: int) \<and> (of_char c :: int) \<le> 13))"

definition isdigit :: "char \<Rightarrow> bool" where
  "isdigit c = (48 \<le> (of_char c :: int) \<and> (of_char c :: int) \<le> 57)"

definition isxdigit :: "char \<Rightarrow> bool" where
  "isxdigit c =
     ((48 \<le> (of_char c :: int) \<and> (of_char c :: int) \<le> 57) \<or>
      (65 \<le> (of_char c :: int) \<and> (of_char c :: int) \<le> 70) \<or>
      (97 \<le> (of_char c :: int) \<and> (of_char c :: int) \<le> 102))"

text \<open>The value of a character as a digit of a base up to 16.\<close>

definition digit_val :: "char \<Rightarrow> int" where
  "digit_val c =
     (if (of_char c :: int) \<le> 57 then of_char c - 48
      else if (of_char c :: int) \<le> 70 then of_char c - 55
      else of_char c - 87)"

definition cstr :: "string \<Rightarrow> string" where
  "cstr buf = takeWhile (\<lambda>c. c \<noteq> NUL) buf"

text \<open>The value of a run of digits in base \<open>b\<close>, most significant digit first.\<close>

definition digits_val :: "int \<Rightarrow> string \<Rightarrow> int" where
  "digits_val b ds = foldl (\<lambda>a c. b * a + digit_val c) 0 ds"

text \<open>
  \<^verbatim>\<open>sscanf\<close> conversions.  A numeric conversion skips white space, takes an optional
  sign and then the longest run of digits; with no digit it fails.  The value is
  converted as \<^verbatim>\<open>strtoul\<close> and \<^verbatim>\<open>strtol\<close> do for a 32-bit \<^verbatim>\<open>long\<close>: a minus sign
  negates, a value out of range saturates.
\<close>

definition scan_sign :: "string \<Rightarrow> bool \<times> string" where
  "scan_sign s = (case s of
       [] \<Rightarrow> (False, s)
     | c # t \<Rightarrow> if c = CHR ''-'' then (True, t) else if c = CHR ''+'' then (False, t) else (False, s))"

definition conv_u :: "bool \<Rightarrow> int \<Rightarrow> 32 word" where
  "conv_u neg m = (if m > 4294967295 then - 1 else if neg then - of_int m else of_int m)"

definition conv_d :: "bool \<Rightarrow> int \<Rightarrow> 32 word" where
  "conv_d neg m =
     (if neg then (if m > 2147483648 then 0x80000000 else - of_int m)
      else (if m > 2147483647 then 0x7FFFFFFF else of_int m))"

definition scan_num ::
  "(bool \<Rightarrow> int \<Rightarrow> 32 word) \<Rightarrow> string \<Rightarrow> (32 word \<times> string) option" where
  "scan_num conv s =
     (let (neg, s2) = scan_sign (dropWhile isspace s);
          ds = takeWhile isdigit s2
      in if ds = [] then None else Some (conv neg (digits_val 10 ds), dropWhile isdigit s2))"

definition scan_u :: "string \<Rightarrow> (32 word \<times> string) option" where
  "scan_u = scan_num conv_u"

definition scan_d :: "string \<Rightarrow> (32 word \<times> string) option" where
  "scan_d = scan_num conv_d"

text \<open>Ordinary characters of a format must be the next characters of the input.\<close>

definition scan_lit :: "string \<Rightarrow> string \<Rightarrow> string option" where
  "scan_lit lit s = (if take (length lit) s = lit then Some (drop (length lit) s) else None)"

text \<open>\<^verbatim>\<open>sscanf(s, "%2X", &v) == 1\<close>: at most two characters are read after the white
  space, the sign among them.  (A prefix \<open>0x\<close> would use up that width: the value read
  is then that of the digit 0.)\<close>

definition sscanf_2X :: "string \<Rightarrow> 32 word option" where
  "sscanf_2X s =
     (let s1 = dropWhile isspace s;
          (neg, s2) = scan_sign s1;
          w = (if s2 = s1 then 2 else 1);
          ds = takeWhile isxdigit (take w s2)
      in if ds = [] then None
         else Some (if neg then - of_int (digits_val 16 ds) else of_int (digits_val 16 ds)))"

text \<open>\<^verbatim>\<open>sscanf(s, "%3s", buf) == 1\<close>: up to three characters that are not white space.\<close>

definition sscanf_3s :: "string \<Rightarrow> string option" where
  "sscanf_3s s =
     (let s1 = dropWhile isspace s
      in if s1 = [] then None else Some (take 3 (takeWhile (\<lambda>c. \<not> isspace c) s1)))"

text \<open>\<^verbatim>\<open>sscanf(s, "TAG,%u", &p0) == 1\<close>.\<close>

definition sscanf_u1 :: "string \<Rightarrow> string \<Rightarrow> 32 word option" where
  "sscanf_u1 tag s =
     (case scan_lit tag s of None \<Rightarrow> None
      | Some r \<Rightarrow> (case scan_u r of None \<Rightarrow> None | Some (p0, _) \<Rightarrow> Some p0))"

text \<open>\<^verbatim>\<open>sscanf(s, "SHO,%d,%d", &row, &col) == 2\<close>.\<close>

definition sscanf_d2 :: "string \<Rightarrow> string \<Rightarrow> (32 word \<times> 32 word) option" where
  "sscanf_d2 tag s =
     (case scan_lit tag s of None \<Rightarrow> None
      | Some r0 \<Rightarrow> (case scan_d r0 of None \<Rightarrow> None
      | Some (row, r1) \<Rightarrow> (case scan_lit '','' r1 of None \<Rightarrow> None
      | Some r2 \<Rightarrow> (case scan_d r2 of None \<Rightarrow> None
      | Some (col, _) \<Rightarrow> Some (row, col)))))"

text \<open>\<^verbatim>\<open>sscanf(s, "RES,%u,%u,%u", &row, &col, &guess_result) == 3\<close>.\<close>

definition sscanf_u3 :: "string \<Rightarrow> string \<Rightarrow> (32 word \<times> 32 word \<times> 32 word) option" where
  "sscanf_u3 tag s =
     (case scan_lit tag s of None \<Rightarrow> None
      | Some r0 \<Rightarrow> (case scan_u r0 of None \<Rightarrow> None
      | Some (row, r1) \<Rightarrow> (case scan_lit '','' r1 of None \<Rightarrow> None
      | Some r2 \<Rightarrow> (case scan_u r2 of None \<Rightarrow> None
      | Some (col, r3) \<Rightarrow> (case scan_lit '','' r3 of None \<Rightarrow> None
      | Some r4 \<Rightarrow> (case scan_u r4 of None \<Rightarrow> None
      | Some (res, _) \<Rightarrow> Some (row, col, res)))))))"

text \<open>\<^verbatim>\<open>printf\<close> conversions: \<^verbatim>\<open>%u\<close> (of a number that is not negative), \<^verbatim>\<open>%d\<close> and
  \<^verbatim>\<open>%02X\<close> of an 8-bit value.\<close>

definition digit_char :: "int \<Rightarrow> char" where
  "digit_char d = (if d < 10 then char_of (48 + d) else char_of (55 + d))"

function fmt_u :: "int \<Rightarrow> string" where
  "fmt_u n = (if n < 10 then [digit_char n] else fmt_u (n div 10) @ [digit_char (n mod 10)])"
  by pat_completeness auto
termination
  by (relation "measure nat") auto

declare fmt_u.simps [simp del]

definition fmt_d :: "int \<Rightarrow> string" where
  "fmt_d i = (if i < 0 then CHR ''-'' # fmt_u (- i) else fmt_u i)"

definition fmt_02X :: "8 word \<Rightarrow> string" where
  "fmt_02X w = [digit_char (uint w div 16), digit_char (uint w mod 16)]"

text \<open>\<^verbatim>\<open>snprintf(buf, n, ...)\<close> stores at most \<open>n - 1\<close> characters of the formatted
  text and returns the length of the whole text.\<close>

definition snprintf :: "nat \<Rightarrow> string \<Rightarrow> int \<times> string" where
  "snprintf n text = (int (length text), take (n - 1) text)"

section \<open>Message.c\<close>

datatype DecodeState = WAIT_FOR_START_DELIMITER | RECORDING_PAYLOAD | RECORDING_CHECKSUM

definition Message_CalculateChecksum :: "string \<Rightarrow> 8 word" where
  "Message_CalculateChecksum payload = foldl (\<lambda>checksum c. checksum XOR of_char c) 0 payload"

definition Message_ParseMessage :: "string \<Rightarrow> string \<Rightarrow> BB_Event \<Rightarrow> status \<times> BB_Event" where
  "Message_ParseMessage payload checksum_string message_event =
     (let failed = (STANDARD_ERROR, message_event\<lparr>etype := BB_EVENT_ERROR\<rparr>) in
      if length checksum_string \<noteq> MESSAGE_CHECKSUM_LEN then failed
      else
        let computed_checksum = Message_CalculateChecksum payload in
        case sscanf_2X checksum_string of
          None \<Rightarrow> failed
        | Some parsed_checksum \<Rightarrow>
            if computed_checksum \<noteq> ucast parsed_checksum then failed
            else (case sscanf_3s payload of
              None \<Rightarrow> failed
            | Some message_type \<Rightarrow>
                if message_type = ''CHA'' then
                  (case sscanf_u1 ''CHA,'' payload of
                     Some p0 \<Rightarrow> (SUCCESS, message_event\<lparr>etype := BB_EVENT_CHA_RECEIVED,
                                   eparam0 := ucast p0\<rparr>)
                   | None \<Rightarrow> failed)
                else if message_type = ''ACC'' then
                  (case sscanf_u1 ''ACC,'' payload of
                     Some p0 \<Rightarrow> (SUCCESS, message_event\<lparr>etype := BB_EVENT_ACC_RECEIVED,
                                   eparam0 := ucast p0\<rparr>)
                   | None \<Rightarrow> failed)
                else if message_type = ''REV'' then
                  (case sscanf_u1 ''REV,'' payload of
                     Some p0 \<Rightarrow> (SUCCESS, message_event\<lparr>etype := BB_EVENT_REV_RECEIVED,
                                   eparam0 := ucast p0\<rparr>)
                   | None \<Rightarrow> failed)
                else if message_type = ''SHO'' then
                  (case sscanf_d2 ''SHO,'' payload of
                     Some (row, col) \<Rightarrow> (SUCCESS, message_event\<lparr>etype := BB_EVENT_SHO_RECEIVED,
                                   eparam0 := ucast row, eparam1 := ucast col\<rparr>)
                   | None \<Rightarrow> failed)
                else if message_type = ''RES'' then
                  (case sscanf_u3 ''RES,'' payload of
                     Some (row, col, guess_result) \<Rightarrow>
                       (SUCCESS, message_event\<lparr>etype := BB_EVENT_RES_RECEIVED,
                          eparam0 := ucast row, eparam1 := ucast col, eparam2 := ucast guess_result\<rparr>)
                   | None \<Rightarrow> failed)
                else failed))"

text \<open>\<^verbatim>\<open>Message_Encode\<close> returns the length and the content of \<^verbatim>\<open>message_string\<close>,
  which is left as it was when nothing is encoded.\<close>

definition Message_Encode :: "string \<Rightarrow> Message \<Rightarrow> int \<times> string" where
  "Message_Encode message_string message_to_encode =
     (if mtype message_to_encode = MESSAGE_NONE then (0, message_string)
      else
        let payload = snd (snprintf (MESSAGE_MAX_PAYLOAD_LEN + 1)
              (case mtype message_to_encode of
                 MESSAGE_CHA \<Rightarrow> ''CHA,'' @ fmt_u (uint (mparam0 message_to_encode))
               | MESSAGE_ACC \<Rightarrow> ''ACC,'' @ fmt_u (uint (mparam0 message_to_encode))
               | MESSAGE_REV \<Rightarrow> ''REV,'' @ fmt_u (uint (mparam0 message_to_encode))
               | MESSAGE_SHO \<Rightarrow> ''SHO,'' @ fmt_d (uint (mparam0 message_to_encode))
                     @ '','' @ fmt_d (uint (mparam1 message_to_encode))
               | MESSAGE_RES \<Rightarrow> ''RES,'' @ fmt_u (uint (mparam0 message_to_encode))
                     @ '','' @ fmt_u (uint (mparam1 message_to_encode))
                     @ '','' @ fmt_u (uint (mparam2 message_to_encode))
               | MESSAGE_NONE \<Rightarrow> []));
            checksum = Message_CalculateChecksum payload
        in snprintf (MESSAGE_MAX_LEN + 1)
             (''$'' @ payload @ ''*'' @ fmt_02X checksum @ [CR, LF]))"

text \<open>
  The static variables of \<^verbatim>\<open>Message_Decode\<close>.  Writing to an array outside its bounds,
  or reading a string that has no terminating NUL inside its array, has no defined
  result in C: the model returns \<open>None\<close> there.
\<close>

record decoder =
  decode_state :: DecodeState
  payload_buffer :: string
  checksum_buffer :: string
  payload_index :: int
  checksum_index :: int

definition decoder_init :: decoder where
  "decoder_init =
     \<lparr>decode_state = WAIT_FOR_START_DELIMITER,
      payload_buffer = replicate (MESSAGE_MAX_PAYLOAD_LEN + 1) NUL,
      checksum_buffer = replicate (MESSAGE_CHECKSUM_LEN + 1) NUL,
      payload_index = 0,
      checksum_index = 0\<rparr>"

definition store :: "string \<Rightarrow> int \<Rightarrow> char \<Rightarrow> string option" where
  "store buf i c = (if 0 \<le> i \<and> i < int (length buf) then Some (buf[nat i := c]) else None)"

definition cstr_of :: "string \<Rightarrow> string option" where
  "cstr_of buf = (if NUL \<in> set buf then Some (cstr buf) else None)"

definition Message_Decode ::
  "char \<Rightarrow> BB_Event \<Rightarrow> decoder \<Rightarrow> (status \<times> BB_Event \<times> decoder) option" where
  "Message_Decode char_in decoded_message_event d =
     (let no_event = decoded_message_event\<lparr>etype := BB_EVENT_NO_EVENT\<rparr>;
          failed = Some (STANDARD_ERROR, decoded_message_event\<lparr>etype := BB_EVENT_ERROR\<rparr>,
                         d\<lparr>decode_state := WAIT_FOR_START_DELIMITER\<rparr>)
      in case decode_state d of
        WAIT_FOR_START_DELIMITER \<Rightarrow>
          Some (SUCCESS, no_event,
            if char_in = CHR ''$'' then
              d\<lparr>payload_index := 0,
                checksum_index := 0,
                payload_buffer := replicate (MESSAGE_MAX_PAYLOAD_LEN + 1) NUL,
                checksum_buffer := replicate (MESSAGE_CHECKSUM_LEN + 1) NUL,
                decode_state := RECORDING_PAYLOAD\<rparr>
            else d)
      | RECORDING_PAYLOAD \<Rightarrow>
          if char_in = CHR ''*'' then
            Some (SUCCESS, no_event, d\<lparr>decode_state := RECORDING_CHECKSUM\<rparr>)
          else if char_in = CR \<or> char_in = CHR ''$'' then failed
          else if payload_index d \<ge> int MESSAGE_MAX_PAYLOAD_LEN then failed
          else
            (case store (payload_buffer d) (payload_index d) char_in of
               None \<Rightarrow> None
             | Some b1 \<Rightarrow>
                (case store b1 (payload_index d + 1) NUL of
                   None \<Rightarrow> None
                 | Some b2 \<Rightarrow>
                     Some (SUCCESS, no_event,
                       d\<lparr>payload_buffer := b2, payload_index := payload_index d + 1\<rparr>)))
      | RECORDING_CHECKSUM \<Rightarrow>
          if checksum_index d < int MESSAGE_CHECKSUM_LEN then
            if isxdigit char_in then
              (case store (checksum_buffer d) (checksum_index d) char_in of
                 None \<Rightarrow> None
               | Some b1 \<Rightarrow>
                  (case store b1 (checksum_index d + 1) NUL of
                     None \<Rightarrow> None
                   | Some b2 \<Rightarrow>
                       Some (SUCCESS, no_event,
                         d\<lparr>checksum_buffer := b2, checksum_index := checksum_index d + 1\<rparr>)))
            else failed
          else if checksum_index d = int MESSAGE_CHECKSUM_LEN then
            if char_in = CR then
              Some (SUCCESS, no_event, d\<lparr>checksum_index := checksum_index d + 1\<rparr>)
            else failed
          else if checksum_index d = int MESSAGE_CHECKSUM_LEN + 1 then
            if char_in = LF then
              (case cstr_of (payload_buffer d) of
                 None \<Rightarrow> None
               | Some payload \<Rightarrow>
                  (case cstr_of (checksum_buffer d) of
                     None \<Rightarrow> None
                   | Some checksum_string \<Rightarrow>
                      (case Message_ParseMessage payload checksum_string decoded_message_event of
                         (parse_result, ev) \<Rightarrow>
                           if parse_result = SUCCESS then
                             Some (SUCCESS, ev, d\<lparr>decode_state := WAIT_FOR_START_DELIMITER\<rparr>)
                           else
                             Some (STANDARD_ERROR, ev\<lparr>etype := BB_EVENT_ERROR\<rparr>,
                                   d\<lparr>decode_state := WAIT_FOR_START_DELIMITER\<rparr>))))
            else failed
          else failed)"

text \<open>The caller's loop: one call per received byte, on the same event structure.  The
  result lists the return value and the event of every call.\<close>

fun decode_stream ::
  "string \<Rightarrow> BB_Event \<Rightarrow> decoder \<Rightarrow> ((status \<times> BB_Event) list \<times> decoder) option" where
  "decode_stream [] ev d = Some ([], d)"
| "decode_stream (c # cs) ev d =
     (case Message_Decode c ev d of
        None \<Rightarrow> None
      | Some (r, ev', d') \<Rightarrow>
         (case decode_stream cs ev' d' of
            None \<Rightarrow> None
          | Some (out, d'') \<Rightarrow> Some ((r, ev') # out, d'')))"

section \<open>Field.h and Field.c\<close>

text \<open>
  \<^verbatim>\<open>Field.h\<close>, \<^verbatim>\<open>Negotiation.h\<close> and \<^verbatim>\<open>Negotiation.c\<close> are not part of the sources
  at hand.  The enumerations below have the constants that \<^verbatim>\<open>Field.c\<close> and \<^verbatim>\<open>Agent.c\<close>
  name.  What only the missing files fix is a parameter of the model: the boat sizes, the
  numbers behind the enumeration constants that the code converts to integers, and the
  three negotiation functions that \<^verbatim>\<open>Agent.c\<close> calls; so are the values that the C
  library's \<^verbatim>\<open>rand\<close> returns, call by call.
\<close>

datatype SquareStatus =
    FIELD_SQUARE_EMPTY
  | FIELD_SQUARE_SMALL_BOAT
  | FIELD_SQUARE_MEDIUM_BOAT
  | FIELD_SQUARE_LARGE_BOAT
  | FIELD_SQUARE_HUGE_BOAT
  | FIELD_SQUARE_UNKNOWN
  | FIELD_SQUARE_HIT
  | FIELD_SQUARE_MISS
  | FIELD_SQUARE_CURSOR
  | FIELD_SQUARE_INVALID

datatype BoatDirection = FIELD_DIR_SOUTH | FIELD_DIR_EAST

datatype BoatType =
    FIELD_BOAT_TYPE_SMALL
  | FIELD_BOAT_TYPE_MEDIUM
  | FIELD_BOAT_TYPE_LARGE
  | FIELD_BOAT_TYPE_HUGE

datatype NegotiationOutcome = HEADS | TAILS

record externals =
  rand_value :: "nat \<Rightarrow> nat"
  NegotiationHash :: "16 word \<Rightarrow> 16 word"
  NegotiationVerify :: "16 word \<Rightarrow> 16 word \<Rightarrow> bool"
  NegotiateCoinFlip :: "16 word \<Rightarrow> 16 word \<Rightarrow> NegotiationOutcome"
  FIELD_BOAT_SIZE_SMALL :: "8 word"
  FIELD_BOAT_SIZE_MEDIUM :: "8 word"
  FIELD_BOAT_SIZE_LARGE :: "8 word"
  FIELD_BOAT_SIZE_HUGE :: "8 word"
  RESULT_MISS :: nat
  RESULT_HIT :: nat
  RESULT_SMALL_BOAT_SUNK :: nat
  RESULT_MEDIUM_BOAT_SUNK :: nat
  RESULT_LARGE_BOAT_SUNK :: nat
  RESULT_HUGE_BOAT_SUNK :: nat
  square_code :: "SquareStatus \<Rightarrow> nat"

definition FIELD_COLS :: nat where "FIELD_COLS = 10"
definition FIELD_ROWS :: nat where "FIELD_ROWS = 6"
definition FIELD_NUM_BOATS :: nat where "FIELD_NUM_BOATS = 4"

text \<open>\<^verbatim>\<open>Field\<close>: a grid of \<^verbatim>\<open>FIELD_ROWS\<close> rows of \<^verbatim>\<open>FIELD_COLS\<close> squares, and the lives
  of the four boats.  \<^verbatim>\<open>GuessData\<close>, with the fields \<^verbatim>\<open>row\<close>, \<^verbatim>\<open>col\<close> and \<^verbatim>\<open>result\<close>; the result is kept
  as the number it is in C.\<close>

record Field =
  grid :: "SquareStatus list list"
  smallBoatLives :: "8 word"
  mediumBoatLives :: "8 word"
  largeBoatLives :: "8 word"
  hugeBoatLives :: "8 word"

record GuessData =
  guess_row :: "8 word"
  guess_col :: "8 word"
  guess_result :: nat

definition field_wf :: "Field \<Rightarrow> bool" where
  "field_wf f = (length (grid f) = FIELD_ROWS \<and> list_all (\<lambda>r. length r = FIELD_COLS) (grid f))"

text \<open>Reading and writing \<^verbatim>\<open>f->grid[r][c]\<close>.  Outside the array there is no defined
  result: \<open>None\<close>.\<close>

definition grid_get :: "Field \<Rightarrow> int \<Rightarrow> int \<Rightarrow> SquareStatus option" where
  "grid_get f r c =
     (if 0 \<le> r \<and> r < int FIELD_ROWS \<and> 0 \<le> c \<and> c < int FIELD_COLS \<and>
         nat r < length (grid f) \<and> nat c < length (grid f ! nat r)
      then Some (grid f ! nat r ! nat c) else None)"

definition grid_set :: "Field \<Rightarrow> int \<Rightarrow> int \<Rightarrow> SquareStatus \<Rightarrow> Field option" where
  "grid_set f r c p =
     (if 0 \<le> r \<and> r < int FIELD_ROWS \<and> 0 \<le> c \<and> c < int FIELD_COLS \<and>
         nat r < length (grid f) \<and> nat c < length (grid f ! nat r)
      then Some (f\<lparr>grid := (grid f)[nat r := (grid f ! nat r)[nat c := p]]\<rparr>) else None)"

text \<open>\<^verbatim>\<open>FieldInit\<close>: the two nested loops visit every square of both grids; their indices
  are inside the arrays.\<close>

definition put_square :: "Field \<Rightarrow> nat \<Rightarrow> nat \<Rightarrow> SquareStatus \<Rightarrow> Field" where
  "put_square f r c p = f\<lparr>grid := (grid f)[r := (grid f ! r)[c := p]]\<rparr>"

definition FieldInit :: "externals \<Rightarrow> Field \<Rightarrow> Field \<Rightarrow> Field \<times> Field" where
  "FieldInit ext ownField oppField =
     (let (own1, opp1) =
            fold (\<lambda>r. fold (\<lambda>c (own, opp).
                     (put_square own r c FIELD_SQUARE_EMPTY, put_square opp r c FIELD_SQUARE_UNKNOWN))
                   [0..<FIELD_COLS])
              [0..<FIELD_ROWS] (ownField, oppField)
      in (own1\<lparr>smallBoatLives := 0, mediumBoatLives := 0, largeBoatLives := 0, hugeBoatLives := 0\<rparr>,
          opp1\<lparr>smallBoatLives := FIELD_BOAT_SIZE_SMALL ext,
               mediumBoatLives := FIELD_BOAT_SIZE_MEDIUM ext,
               largeBoatLives := FIELD_BOAT_SIZE_LARGE ext,
               hugeBoatLives := FIELD_BOAT_SIZE_HUGE ext\<rparr>))"

text \<open>\<^verbatim>\<open>FieldAddBoat\<close>.  The squares are read and written at \<^verbatim>\<open>uint8_t\<close> coordinates
  \<^verbatim>\<open>row + i\<close> or \<^verbatim>\<open>col + i\<close>; the bounds check compares in \<^verbatim>\<open>int\<close>.\<close>

definition boat_length :: "externals \<Rightarrow> BoatType \<Rightarrow> 8 word" where
  "boat_length ext boatType =
     (case boatType of
        FIELD_BOAT_TYPE_SMALL \<Rightarrow> FIELD_BOAT_SIZE_SMALL ext
      | FIELD_BOAT_TYPE_MEDIUM \<Rightarrow> FIELD_BOAT_SIZE_MEDIUM ext
      | FIELD_BOAT_TYPE_LARGE \<Rightarrow> FIELD_BOAT_SIZE_LARGE ext
      | FIELD_BOAT_TYPE_HUGE \<Rightarrow> FIELD_BOAT_SIZE_HUGE ext)"

definition boat_square :: "BoatType \<Rightarrow> SquareStatus" where
  "boat_square boatType =
     (case boatType of
        FIELD_BOAT_TYPE_SMALL \<Rightarrow> FIELD_SQUARE_SMALL_BOAT
      | FIELD_BOAT_TYPE_MEDIUM \<Rightarrow> FIELD_SQUARE_MEDIUM_BOAT
      | FIELD_BOAT_TYPE_LARGE \<Rightarrow> FIELD_SQUARE_LARGE_BOAT
      | FIELD_BOAT_TYPE_HUGE \<Rightarrow> FIELD_SQUARE_HUGE_BOAT)"

definition boat_r :: "8 word \<Rightarrow> BoatDirection \<Rightarrow> nat \<Rightarrow> int" where
  "boat_r row dir i = uint (row + (if dir = FIELD_DIR_SOUTH then of_nat i else 0))"

definition boat_c :: "8 word \<Rightarrow> BoatDirection \<Rightarrow> nat \<Rightarrow> int" where
  "boat_c col dir i = uint (col + (if dir = FIELD_DIR_EAST then of_nat i else 0))"

text \<open>The overlap loop: \<open>Some True\<close> when every square of the boat is empty, \<open>Some False\<close>
  at the first square that is not.\<close>

fun boat_fits :: "Field \<Rightarrow> 8 word \<Rightarrow> 8 word \<Rightarrow> BoatDirection \<Rightarrow> nat list \<Rightarrow> bool option" where
  "boat_fits f row col dir [] = Some True"
| "boat_fits f row col dir (i # is) =
     (case grid_get f (boat_r row dir i) (boat_c col dir i) of
        None \<Rightarrow> None
      | Some s \<Rightarrow> if s \<noteq> FIELD_SQUARE_EMPTY then Some False else boat_fits f row col dir is)"

fun boat_place ::
  "Field \<Rightarrow> 8 word \<Rightarrow> 8 word \<Rightarrow> BoatDirection \<Rightarrow> SquareStatus \<Rightarrow> nat list \<Rightarrow> Field option" where
  "boat_place f row col dir boatStatus [] = Some f"
| "boat_place f row col dir boatStatus (i # is) =
     (case grid_set f (boat_r row dir i) (boat_c col dir i) boatStatus of
        None \<Rightarrow> None
      | Some f' \<Rightarrow> boat_place f' row col dir boatStatus is)"

definition FieldAddBoat ::
  "externals \<Rightarrow> Field \<Rightarrow> 8 word \<Rightarrow> 8 word \<Rightarrow> BoatDirection \<Rightarrow> BoatType \<Rightarrow> (status \<times> Field) option" where
  "FieldAddBoat ext ownField row col dir boatType =
     (let len = boat_length ext boatType;
          boatStatus = boat_square boatType
      in if (dir = FIELD_DIR_EAST \<and> uint col + uint len > int FIELD_COLS) \<or>
            (dir = FIELD_DIR_SOUTH \<and> uint row + uint len > int FIELD_ROWS)
         then Some (STANDARD_ERROR, ownField)
         else (case boat_fits ownField row col dir [0..<unat len] of
             None \<Rightarrow> None
           | Some False \<Rightarrow> Some (STANDARD_ERROR, ownField)
           | Some True \<Rightarrow>
              (case boat_place ownField row col dir boatStatus [0..<unat len] of
                 None \<Rightarrow> None
               | Some f \<Rightarrow>
                  Some (SUCCESS,
                    (case boatType of
                       FIELD_BOAT_TYPE_SMALL \<Rightarrow> f\<lparr>smallBoatLives := smallBoatLives f + len\<rparr>
                     | FIELD_BOAT_TYPE_MEDIUM \<Rightarrow> f\<lparr>mediumBoatLives := mediumBoatLives f + len\<rparr>
                     | FIELD_BOAT_TYPE_LARGE \<Rightarrow> f\<lparr>largeBoatLives := largeBoatLives f + len\<rparr>
                     | FIELD_BOAT_TYPE_HUGE \<Rightarrow> f\<lparr>hugeBoatLives := hugeBoatLives f + len\<rparr>)))))"

text \<open>\<^verbatim>\<open>FieldRegisterEnemyAttack\<close> returns the square as it was and the updated field and
  guess.\<close>

definition FieldRegisterEnemyAttack ::
  "externals \<Rightarrow> Field \<Rightarrow> GuessData \<Rightarrow> (SquareStatus \<times> Field \<times> GuessData) option" where
  "FieldRegisterEnemyAttack ext ownField opp_guess =
     (if unat (guess_row opp_guess) \<ge> FIELD_ROWS \<or> unat (guess_col opp_guess) \<ge> FIELD_COLS then
        Some (FIELD_SQUARE_INVALID, ownField, opp_guess\<lparr>guess_result := RESULT_MISS ext\<rparr>)
      else
        (case grid_get ownField (uint (guess_row opp_guess)) (uint (guess_col opp_guess)) of
           None \<Rightarrow> None
         | Some current \<Rightarrow>
            (case grid_set ownField (uint (guess_row opp_guess)) (uint (guess_col opp_guess)) FIELD_SQUARE_HIT of
               None \<Rightarrow> None
             | Some hit \<Rightarrow>
                (case grid_set ownField (uint (guess_row opp_guess)) (uint (guess_col opp_guess)) FIELD_SQUARE_MISS of
                   None \<Rightarrow> None
                 | Some miss \<Rightarrow>
                    (case current of
                       FIELD_SQUARE_SMALL_BOAT \<Rightarrow>
                         (let lives = (if smallBoatLives hit > 0 then smallBoatLives hit - 1
                                       else smallBoatLives hit)
                          in Some (current, hit\<lparr>smallBoatLives := lives\<rparr>,
                               opp_guess\<lparr>guess_result := (if lives = 0 then RESULT_SMALL_BOAT_SUNK ext
                                                      else RESULT_HIT ext)\<rparr>))
                     | FIELD_SQUARE_MEDIUM_BOAT \<Rightarrow>
                         (let lives = (if mediumBoatLives hit > 0 then mediumBoatLives hit - 1
                                       else mediumBoatLives hit)
                          in Some (current, hit\<lparr>mediumBoatLives := lives\<rparr>,
                               opp_guess\<lparr>guess_result := (if lives = 0 then RESULT_MEDIUM_BOAT_SUNK ext
                                                      else RESULT_HIT ext)\<rparr>))
                     | FIELD_SQUARE_LARGE_BOAT \<Rightarrow>
                         (let lives = (if largeBoatLives hit > 0 then largeBoatLives hit - 1
                                       else largeBoatLives hit)
                          in Some (current, hit\<lparr>largeBoatLives := lives\<rparr>,
                               opp_guess\<lparr>guess_result := (if lives = 0 then RESULT_LARGE_BOAT_SUNK ext
                                                      else RESULT_HIT ext)\<rparr>))
                     | FIELD_SQUARE_HUGE_BOAT \<Rightarrow>
                         (let lives = (if hugeBoatLives hit > 0 then hugeBoatLives hit - 1
                                       else hugeBoatLives hit)
                          in Some (current, hit\<lparr>hugeBoatLives := lives\<rparr>,
                               opp_guess\<lparr>guess_result := (if lives = 0 then RESULT_HUGE_BOAT_SUNK ext
                                                      else RESULT_HIT ext)\<rparr>))
                     | FIELD_SQUARE_EMPTY \<Rightarrow>
                         Some (current, miss, opp_guess\<lparr>guess_result := RESULT_MISS ext\<rparr>)
                     | _ \<Rightarrow> Some (current, ownField, opp_guess\<lparr>guess_result := RESULT_MISS ext\<rparr>))))))"

text \<open>\<^verbatim>\<open>FieldUpdateKnowledge\<close>: the two \<^verbatim>\<open>switch\<close> statements take the first case label
  whose constant equals the result.\<close>

definition FieldUpdateKnowledge ::
  "externals \<Rightarrow> Field \<Rightarrow> GuessData \<Rightarrow> (SquareStatus \<times> Field) option" where
  "FieldUpdateKnowledge ext oppField own_guess =
     (if unat (guess_row own_guess) \<ge> FIELD_ROWS \<or> unat (guess_col own_guess) \<ge> FIELD_COLS then
        Some (FIELD_SQUARE_INVALID, oppField)
      else
        (case grid_get oppField (uint (guess_row own_guess)) (uint (guess_col own_guess)) of
           None \<Rightarrow> None
         | Some prevStatus \<Rightarrow>
            (case grid_set oppField (uint (guess_row own_guess)) (uint (guess_col own_guess)) FIELD_SQUARE_HIT of
               None \<Rightarrow> None
             | Some hit \<Rightarrow>
                (case grid_set oppField (uint (guess_row own_guess)) (uint (guess_col own_guess)) FIELD_SQUARE_MISS of
                   None \<Rightarrow> None
                 | Some miss \<Rightarrow>
                    (let r = guess_result own_guess;
                         f1 = (if r = RESULT_HIT ext \<or> r = RESULT_SMALL_BOAT_SUNK ext \<or>
                                  r = RESULT_MEDIUM_BOAT_SUNK ext \<or> r = RESULT_LARGE_BOAT_SUNK ext \<or>
                                  r = RESULT_HUGE_BOAT_SUNK ext then hit
                               else if r = RESULT_MISS ext then miss
                               else oppField);
                         f2 = (if r = RESULT_SMALL_BOAT_SUNK ext then f1\<lparr>smallBoatLives := 0\<rparr>
                               else if r = RESULT_MEDIUM_BOAT_SUNK ext then f1\<lparr>mediumBoatLives := 0\<rparr>
                               else if r = RESULT_LARGE_BOAT_SUNK ext then f1\<lparr>largeBoatLives := 0\<rparr>
                               else if r = RESULT_HUGE_BOAT_SUNK ext then f1\<lparr>hugeBoatLives := 0\<rparr>
                               else f1)
                     in Some (prevStatus, f2))))))"

text \<open>\<^verbatim>\<open>FieldGetBoatStates\<close>: one bit per boat, the small boat in the least significant
  bit, as the function's comment says.\<close>

definition FieldGetBoatStates :: "Field \<Rightarrow> 8 word" where
  "FieldGetBoatStates f =
     (if smallBoatLives f > 0 then 0x01 else 0) OR
     (if mediumBoatLives f > 0 then 0x02 else 0) OR
     (if largeBoatLives f > 0 then 0x04 else 0) OR
     (if hugeBoatLives f > 0 then 0x08 else 0)"

text \<open>
  \<^verbatim>\<open>FieldAIPlaceAllBoats\<close>.  The \<^verbatim>\<open>while\<close> loop draws a new position until the boat
  fits; whether it ends depends on what \<^verbatim>\<open>rand\<close> returns, so the loop is a partial
  function: \<open>None\<close> when it does not end.  The number counts the calls of \<^verbatim>\<open>rand\<close>.
  The loop runs while \<^verbatim>\<open>FieldAddBoat\<close> returns 0, which is \<^verbatim>\<open>STANDARD_ERROR\<close> in
  \<^verbatim>\<open>BOARD.h\<close>.
\<close>

definition rand_dir :: "nat \<Rightarrow> BoatDirection" where
  "rand_dir v = (if v mod 2 = 0 then FIELD_DIR_SOUTH else FIELD_DIR_EAST)"

partial_function (option) place_loop ::
  "externals \<Rightarrow> BoatType \<Rightarrow> 8 word \<Rightarrow> 8 word \<Rightarrow> BoatDirection \<Rightarrow> nat \<Rightarrow> Field \<Rightarrow> (nat \<times> Field) option" where
  "place_loop ext boatType row col dir n f =
     (case FieldAddBoat ext f row col dir boatType of
        None \<Rightarrow> None
      | Some (r, f') \<Rightarrow>
          if r = SUCCESS then Some (n, f')
          else place_loop ext boatType
                 (of_nat (rand_value ext n mod FIELD_ROWS))
                 (of_nat (rand_value ext (n + 1) mod FIELD_COLS))
                 (rand_dir (rand_value ext (n + 2)))
                 (n + 3) f')"

definition place_one :: "externals \<Rightarrow> BoatType \<Rightarrow> nat \<times> Field \<Rightarrow> (nat \<times> Field) option" where
  "place_one ext boatType nf =
     (case nf of (n, f) \<Rightarrow>
        place_loop ext boatType
          (of_nat (rand_value ext n mod FIELD_ROWS))
          (of_nat (rand_value ext (n + 1) mod FIELD_COLS))
          (rand_dir (rand_value ext (n + 2)))
          (n + 3) f)"

definition FieldAIPlaceAllBoats :: "externals \<Rightarrow> nat \<Rightarrow> Field \<Rightarrow> (status \<times> nat \<times> Field) option" where
  "FieldAIPlaceAllBoats ext n ownField =
     (case place_one ext FIELD_BOAT_TYPE_HUGE (n, ownField) of None \<Rightarrow> None | Some nf1 \<Rightarrow>
      (case place_one ext FIELD_BOAT_TYPE_LARGE nf1 of None \<Rightarrow> None | Some nf2 \<Rightarrow>
      (case place_one ext FIELD_BOAT_TYPE_MEDIUM nf2 of None \<Rightarrow> None | Some nf3 \<Rightarrow>
      (case place_one ext FIELD_BOAT_TYPE_SMALL nf3 of None \<Rightarrow> None | Some (n4, f4) \<Rightarrow>
         Some (SUCCESS, n4, f4)))))"

text \<open>
  \<^verbatim>\<open>FieldAIDecideGuess\<close> and its static variables (\<^verbatim>\<open>int8_t direction\<close> is kept as the
  byte that stores it).  The function calls itself once after setting \<^verbatim>\<open>reverse\<close>.
  There is no defined result (\<open>None\<close>) when \<^verbatim>\<open>directions\<close> or the grid is indexed outside
  its bounds, and when no square is unknown: the guess returned then has a row and a
  column that were never assigned.
\<close>

record ai_static =
  targeting :: "8 word"
  orientationKnown :: "8 word"
  direction :: "8 word"
  reverse :: "8 word"
  hitsInARow :: "8 word"
  originRow :: "8 word"
  originCol :: "8 word"
  lastGuess :: GuessData

definition ai_static_init :: "externals \<Rightarrow> ai_static" where
  "ai_static_init ext =
     \<lparr>targeting = 0, orientationKnown = 0, direction = - 1, reverse = 0, hitsInARow = 0,
      originRow = of_nat FIELD_ROWS, originCol = of_nat FIELD_COLS,
      lastGuess = \<lparr>guess_row = 0, guess_col = 0, guess_result = RESULT_MISS ext\<rparr>\<rparr>"

definition directions :: "(int \<times> int) list" where
  "directions = [(- 1, 0), (1, 0), (0, - 1), (0, 1)]"

definition to_int8 :: "int \<Rightarrow> int" where
  "to_int8 x = sint (word_of_int x :: 8 word)"

definition new_guess :: "externals \<Rightarrow> int \<Rightarrow> int \<Rightarrow> GuessData" where
  "new_guess ext r c = \<lparr>guess_row = word_of_int r, guess_col = word_of_int c, guess_result = RESULT_MISS ext\<rparr>"

text \<open>The two tests of \<^verbatim>\<open>lastGuess.result\<close> at the start of the function.\<close>

definition ai_prefix :: "externals \<Rightarrow> ai_static \<Rightarrow> ai_static" where
  "ai_prefix ext ai =
     (let ai1 = (if guess_result (lastGuess ai) \<ge> RESULT_SMALL_BOAT_SUNK ext \<and>
                    guess_result (lastGuess ai) \<le> RESULT_HUGE_BOAT_SUNK ext
                 then ai\<lparr>targeting := 0, orientationKnown := 0, direction := - 1, reverse := 0,
                        hitsInARow := 0, originRow := of_nat FIELD_ROWS, originCol := of_nat FIELD_COLS\<rparr>
                 else ai)
      in if guess_result (lastGuess ai1) = RESULT_HIT ext then
           (let ai2 = (if targeting ai1 = 0
                       then ai1\<lparr>targeting := 1, originRow := guess_row (lastGuess ai1),
                                originCol := guess_col (lastGuess ai1)\<rparr>
                       else ai1)
            in ai2\<lparr>hitsInARow := hitsInARow ai2 + 1\<rparr>)
         else ai1)"

text \<open>The square in the known direction: its coordinates and whether it can be guessed.\<close>

definition ai_probe :: "ai_static \<Rightarrow> Field \<Rightarrow> (int \<times> int \<times> bool) option" where
  "ai_probe ai oppField =
     (let d = sint (if reverse ai \<noteq> 0 then direction ai XOR 1 else direction ai);
          steps = uint (hitsInARow ai) + (if reverse ai \<noteq> 0 then 0 else 1)
      in if d < 0 \<or> d \<ge> 4 then None
         else
           (let newRow = to_int8 (uint (originRow ai) + fst (directions ! nat d) * steps);
                newCol = to_int8 (uint (originCol ai) + snd (directions ! nat d) * steps)
            in if newRow < int FIELD_ROWS \<and> newCol < int FIELD_COLS then
                 (case grid_get oppField newRow newCol of
                    None \<Rightarrow> None
                  | Some s \<Rightarrow> Some (newRow, newCol, s = FIELD_SQUARE_UNKNOWN))
               else Some (newRow, newCol, False)))"

text \<open>The loop over the four neighbours of the origin: the first one that is on the field
  and unknown, with its direction.\<close>

fun ai_adjacent :: "ai_static \<Rightarrow> Field \<Rightarrow> nat list \<Rightarrow> (nat \<times> int \<times> int) option option" where
  "ai_adjacent ai oppField [] = Some None"
| "ai_adjacent ai oppField (d # ds) =
     (let newRow = to_int8 (uint (originRow ai) + fst (directions ! d));
          newCol = to_int8 (uint (originCol ai) + snd (directions ! d))
      in if newRow \<ge> 0 \<and> newRow < int FIELD_ROWS \<and> newCol \<ge> 0 \<and> newCol < int FIELD_COLS then
           (case grid_get oppField newRow newCol of
              None \<Rightarrow> None
            | Some s \<Rightarrow> if s = FIELD_SQUARE_UNKNOWN then Some (Some (d, newRow, newCol))
                        else ai_adjacent ai oppField ds)
         else ai_adjacent ai oppField ds)"

text \<open>The first unknown square among the given ones.\<close>

fun first_unknown :: "Field \<Rightarrow> (nat \<times> nat) list \<Rightarrow> (nat \<times> nat) option option" where
  "first_unknown oppField [] = Some None"
| "first_unknown oppField ((r, c) # rcs) =
     (case grid_get oppField (int r) (int c) of
        None \<Rightarrow> None
      | Some s \<Rightarrow> if s = FIELD_SQUARE_UNKNOWN then Some (Some (r, c)) else first_unknown oppField rcs)"

definition field_squares :: "(nat \<times> nat) list" where
  "field_squares = List.product [0..<FIELD_ROWS] [0..<FIELD_COLS]"

text \<open>Hunt mode, then the fallback.\<close>

definition ai_hunt :: "externals \<Rightarrow> ai_static \<Rightarrow> Field \<Rightarrow> (GuessData \<times> ai_static) option" where
  "ai_hunt ext ai oppField =
     (case first_unknown oppField (filter (\<lambda>(r, c). (r + c) mod 4 = 0) field_squares) of
        None \<Rightarrow> None
      | Some (Some (r, c)) \<Rightarrow> Some (new_guess ext (int r) (int c), ai)
      | Some None \<Rightarrow>
         (case first_unknown oppField field_squares of
            None \<Rightarrow> None
          | Some (Some (r, c)) \<Rightarrow> Some (new_guess ext (int r) (int c), ai)
          | Some None \<Rightarrow> None))"

function FieldAIDecideGuess ::
  "externals \<Rightarrow> ai_static \<Rightarrow> Field \<Rightarrow> (GuessData \<times> ai_static) option" where
  "FieldAIDecideGuess ext ai oppField =
     (if targeting (ai_prefix ext ai) \<noteq> 0 then
        if orientationKnown (ai_prefix ext ai) \<noteq> 0 \<and> direction (ai_prefix ext ai) \<noteq> - 1 then
          (case ai_probe (ai_prefix ext ai) oppField of
             None \<Rightarrow> None
           | Some (newRow, newCol, ok) \<Rightarrow>
               if ok then Some (new_guess ext newRow newCol, ai_prefix ext ai)
               else if reverse (ai_prefix ext ai) = 0 then
                 FieldAIDecideGuess ext ((ai_prefix ext ai)\<lparr>reverse := 1\<rparr>) oppField
               else
                 ai_hunt ext
                   ((ai_prefix ext ai)\<lparr>targeting := 0, orientationKnown := 0, direction := - 1,
                      reverse := 0, hitsInARow := 0\<rparr>) oppField)
        else
          (case ai_adjacent (ai_prefix ext ai) oppField [0..<4] of
             None \<Rightarrow> None
           | Some (Some (d, newRow, newCol)) \<Rightarrow>
               Some (new_guess ext newRow newCol,
                     (ai_prefix ext ai)\<lparr>orientationKnown := (if d = 0 \<or> d = 1 then 2 else 1),
                        direction := of_nat d\<rparr>)
           | Some None \<Rightarrow> ai_hunt ext ((ai_prefix ext ai)\<lparr>targeting := 0\<rparr>) oppField)
      else ai_hunt ext (ai_prefix ext ai) oppField)"
  by pat_completeness auto
termination
proof (relation "measure (\<lambda>(ext, ai, f).
         if orientationKnown (ai_prefix ext ai) \<noteq> 0 \<and> reverse (ai_prefix ext ai) = 0 then 1 else 0)")
  show "wf (measure (\<lambda>(ext, ai, f).
         if orientationKnown (ai_prefix ext ai) \<noteq> 0 \<and> reverse (ai_prefix ext ai) = 0 then 1 else 0))"
    by simp
next
  fix ext :: externals and ai :: ai_static and oppField :: Field
  assume t: "orientationKnown (ai_prefix ext ai) \<noteq> 0 \<and> direction (ai_prefix ext ai) \<noteq> - 1"
    and r: "reverse (ai_prefix ext ai) = 0"
  have "orientationKnown (ai_prefix ext ((ai_prefix ext ai)\<lparr>reverse := 1\<rparr>)) = 0 \<or>
        reverse (ai_prefix ext ((ai_prefix ext ai)\<lparr>reverse := 1\<rparr>)) = 1"
    by (simp add: ai_prefix_def[of ext "(ai_prefix ext ai)\<lparr>reverse := 1\<rparr>"] Let_def)
  then show "((ext, (ai_prefix ext ai)\<lparr>reverse := 1\<rparr>, oppField), (ext, ai, oppField))
        \<in> measure (\<lambda>(ext, ai, f).
             if orientationKnown (ai_prefix ext ai) \<noteq> 0 \<and> reverse (ai_prefix ext ai) = 0 then 1 else 0)"
    using t r by auto
qed

declare FieldAIDecideGuess.simps [simp del]

section \<open>The negotiation functions of the spec\<close>

text \<open>
  Modelled from the spec: \<^verbatim>\<open>PUBLIC_KEY\<close>, of the missing \<^verbatim>\<open>Negotiation.h\<close>.  The spec
  calls it a fixed 16-bit modulus with \<open>commit(3) = 9\<close> and \<open>commit(12345) = 43182\<close>;
  \<open>0xBEEF\<close> is the one 16-bit number that gives both.
\<close>

definition PUBLIC_KEY :: int where
  "PUBLIC_KEY = 0xBEEF"

text \<open>
  Modelled from the spec: \<open>commit\<close>, which is \<^verbatim>\<open>NegotiationHash\<close> of the missing
  \<^verbatim>\<open>Negotiation.c\<close>: ``square the secret modulo a fixed public 16-bit modulus''.
\<close>

definition commit :: "16 word \<Rightarrow> 16 word" where
  "commit secret = word_of_int ((uint secret * uint secret) mod PUBLIC_KEY)"

text \<open>
  Modelled from the spec: \<open>verify\<close>, which is \<^verbatim>\<open>NegotiationVerify\<close> of the missing
  \<^verbatim>\<open>Negotiation.c\<close>: ``returns true iff \<open>commit(secret) == commitment\<close>''.
\<close>

definition verify :: "16 word \<Rightarrow> 16 word \<Rightarrow> bool" where
  "verify secret commitment = (commit secret = commitment)"

text \<open>
  Modelled from the spec: \<open>coinFlip\<close>, which is \<^verbatim>\<open>NegotiateCoinFlip\<close> of the missing
  \<^verbatim>\<open>Negotiation.c\<close>: ``returns HEADS iff the population count (number of set bits) of
  \<open>A XOR B\<close> is odd, else TAILS''.
\<close>

definition coinFlip :: "16 word \<Rightarrow> 16 word \<Rightarrow> NegotiationOutcome" where
  "coinFlip a b = (if odd (length (filter (bit (a XOR b)) [0..<16])) then HEADS else TAILS)"

section \<open>Agent.c\<close>

datatype AgentState =
    AGENT_STATE_START
  | AGENT_STATE_CHALLENGING
  | AGENT_STATE_ACCEPTING
  | AGENT_STATE_ATTACKING
  | AGENT_STATE_DEFENDING
  | AGENT_STATE_WAITING_TO_SEND
  | AGENT_STATE_END_SCREEN

datatype FieldOledTurn = FIELD_OLED_TURN_NONE | FIELD_OLED_TURN_MINE | FIELD_OLED_TURN_THEIRS

datatype OledColor = OLED_COLOR_BLACK | OLED_COLOR_WHITE

text \<open>
  The display, the console and the timer are outside the module: a call of one of their
  functions is recorded, with its arguments, in the order of the calls.
\<close>

datatype effect =
    OLED_Init
  | OLED_Clear OledColor
  | OLED_DrawString string
  | OLED_Update
  | FieldOledDrawField Field int
  | FieldOledDrawScreen Field Field FieldOledTurn "8 word"
  | HAL_Delay nat
  | printf string

text \<open>
  The static variables of \<^verbatim>\<open>Agent.c\<close>, and with them what else a call of \<^verbatim>\<open>AgentRun\<close>
  reads or changes: the static variables of \<^verbatim>\<open>FieldAIDecideGuess\<close>, the number of calls
  of \<^verbatim>\<open>rand\<close> so far, and the recorded calls.
\<close>

record agent =
  agentState :: AgentState
  turn_counter :: "8 word"
  oppField :: Field
  ownField :: Field
  A :: "16 word"
  B :: "16 word"
  hashA :: "16 word"
  own_guess :: GuessData
  playerTurn :: FieldOledTurn
  turn_order :: NegotiationOutcome
  endScreenDrawn :: bool
  ai_vars :: ai_static
  rand_calls :: nat
  effects :: "effect list"

definition emit :: "effect list \<Rightarrow> agent \<Rightarrow> agent" where
  "emit xs s = s\<lparr>effects := effects s @ xs\<rparr>"

definition banner :: string where
  "banner = ''BATTLEBOATS:'' @ [LF, LF] @ ''Press BTN4 to begin'' @ [LF] @ ''or wait for PLAYER2.''"

definition AgentInit :: "externals \<Rightarrow> agent \<Rightarrow> agent" where
  "AgentInit ext s =
     (let s1 = emit [OLED_Init] s;
          s2 = s1\<lparr>agentState := AGENT_STATE_START, turn_counter := 0, A := 0, B := 0, hashA := 0,
                 playerTurn := FIELD_OLED_TURN_NONE, endScreenDrawn := False\<rparr>
      in case FieldInit ext (ownField s2) (oppField s2) of
           (own, opp) \<Rightarrow> s2\<lparr>ownField := own, oppField := opp\<rparr>)"

definition draw_screen :: "agent \<Rightarrow> effect" where
  "draw_screen s = FieldOledDrawScreen (ownField s) (oppField s) (playerTurn s) (turn_counter s)"

definition AgentRun :: "externals \<Rightarrow> BB_Event \<Rightarrow> agent \<Rightarrow> (Message \<times> agent) option" where
  "AgentRun ext event s =
     (let messageToSend = \<lparr>mtype = MESSAGE_NONE, mparam0 = 0, mparam1 = 0, mparam2 = 0\<rparr> in
      if etype event = BB_EVENT_RESET_BUTTON then
        (let s1 = (AgentInit ext s)\<lparr>agentState := AGENT_STATE_START\<rparr>
         in Some (messageToSend,
              emit [OLED_Clear OLED_COLOR_BLACK, OLED_DrawString banner, OLED_Update] s1))
      else case agentState s of
        AGENT_STATE_START \<Rightarrow>
          (let s0 = emit [OLED_Clear OLED_COLOR_BLACK, OLED_DrawString banner,
                          FieldOledDrawField (ownField s) 0, OLED_Update] s
           in if etype event = BB_EVENT_START_BUTTON then
                (let s1 = s0\<lparr>A := of_nat (rand_value ext (rand_calls s0) mod 65536),
                             rand_calls := rand_calls s0 + 1\<rparr>;
                     s2 = s1\<lparr>hashA := NegotiationHash ext (A s1)\<rparr>;
                     msg = messageToSend\<lparr>mtype := MESSAGE_CHA, mparam0 := hashA s2\<rparr>
                 in case FieldAIPlaceAllBoats ext (rand_calls s2) (ownField s2) of
                      None \<Rightarrow> None
                    | Some (placed, n, own) \<Rightarrow>
                       (let s3 = s2\<lparr>ownField := own, rand_calls := n\<rparr>
                        in if placed = SUCCESS then
                             (let s4 = emit [OLED_Clear OLED_COLOR_BLACK,
                                         OLED_DrawString (''CHALLENGING'' @ [LF] @ fmt_u (uint (A s3))
                                           @ '' = A'' @ [LF] @ fmt_u (uint (hashA s3)) @ '' = hashA''),
                                         OLED_Update, HAL_Delay 100, OLED_Clear OLED_COLOR_BLACK]
                                         (s3\<lparr>agentState := AGENT_STATE_CHALLENGING\<rparr>)
                              in Some (msg, emit [draw_screen s4] s4))
                           else Some (msg, s3)))
              else if etype event = BB_EVENT_CHA_RECEIVED then
                (let s1 = s0\<lparr>hashA := eparam0 event\<rparr>;
                     s2 = s1\<lparr>B := of_nat (rand_value ext (rand_calls s1) mod 65536),
                             rand_calls := rand_calls s1 + 1\<rparr>;
                     msg = messageToSend\<lparr>mtype := MESSAGE_ACC, mparam0 := B s2\<rparr>
                 in case FieldAIPlaceAllBoats ext (rand_calls s2) (ownField s2) of
                      None \<Rightarrow> None
                    | Some (placed, n, own) \<Rightarrow>
                       (let s3 = s2\<lparr>ownField := own, rand_calls := n\<rparr>
                        in if placed = SUCCESS then
                             (let s4 = emit [printf (''START -> ACCEPTING'' @ [LF]),
                                         OLED_Clear OLED_COLOR_BLACK,
                                         OLED_DrawString (''ACCEPTING'' @ [LF] @ fmt_u (uint (hashA s3))
                                           @ '' = hashA'' @ [LF] @ fmt_u (uint (B s3)) @ '' = B''),
                                         OLED_Update, HAL_Delay 100, OLED_Clear OLED_COLOR_BLACK]
                                         (s3\<lparr>agentState := AGENT_STATE_ACCEPTING\<rparr>)
                              in Some (msg, emit [draw_screen s4] s4))
                           else Some (msg, s3)))
              else Some (messageToSend, s0))
      | AGENT_STATE_CHALLENGING \<Rightarrow>
          if etype event = BB_EVENT_ACC_RECEIVED then
            (let msg = messageToSend\<lparr>mtype := MESSAGE_REV, mparam0 := A s\<rparr>;
                 s1 = s\<lparr>turn_order := NegotiateCoinFlip ext (A s) (eparam0 event)\<rparr>
             in if turn_order s1 = HEADS then
                  (let s2 = emit [OLED_Clear OLED_COLOR_BLACK] s1;
                       s3 = emit [OLED_Update] (s2\<lparr>playerTurn := FIELD_OLED_TURN_MINE\<rparr>);
                       s4 = emit [printf (''CHALLENGING -> WAITING TO SEND'' @ [LF])]
                              (s3\<lparr>agentState := AGENT_STATE_WAITING_TO_SEND\<rparr>)
                   in Some (msg, emit [draw_screen s4] s4))
                else
                  (let s2 = emit [OLED_Clear OLED_COLOR_BLACK] s1;
                       s3 = emit [OLED_Update] (s2\<lparr>playerTurn := FIELD_OLED_TURN_THEIRS\<rparr>);
                       s4 = emit [printf (''CHALLENGING -> DEFENDING'' @ [LF])]
                              (s3\<lparr>agentState := AGENT_STATE_DEFENDING\<rparr>)
                   in Some (msg, emit [draw_screen s4] s4)))
          else Some (messageToSend, s)
      | AGENT_STATE_ACCEPTING \<Rightarrow>
          if etype event = BB_EVENT_REV_RECEIVED then
            if \<not> NegotiationVerify ext (eparam0 event) (hashA s) then
              Some (messageToSend,
                emit [printf (''ACCEPTING -> END SCREEN'' @ [LF]), OLED_Clear OLED_COLOR_BLACK,
                      OLED_DrawString ''ERROR: Cheating Detected'', OLED_Update]
                  (s\<lparr>agentState := AGENT_STATE_END_SCREEN\<rparr>))
            else
              (let s1 = s\<lparr>turn_order := NegotiateCoinFlip ext (eparam1 event) (B s)\<rparr>
               in case FieldAIDecideGuess ext (ai_vars s1) (oppField s1) of
                    None \<Rightarrow> None
                  | Some (guess, vars) \<Rightarrow>
                     (let s2 = s1\<lparr>own_guess := guess, ai_vars := vars\<rparr>;
                          msg = messageToSend\<lparr>mtype := MESSAGE_SHO,
                                  mparam0 := ucast (guess_row (own_guess s2)),
                                  mparam1 := ucast (guess_col (own_guess s2))\<rparr>
                      in if turn_order s2 = TAILS then
                           (let s3 = emit [OLED_Clear OLED_COLOR_BLACK] s2;
                                s4 = emit [OLED_Update] (s3\<lparr>playerTurn := FIELD_OLED_TURN_MINE\<rparr>);
                                s5 = emit [printf (''ACCEPTING -> ATTACKING'' @ [LF])]
                                       (s4\<lparr>agentState := AGENT_STATE_ATTACKING\<rparr>)
                            in Some (msg, emit [draw_screen s5] s5))
                         else
                           (let s3 = emit [OLED_Clear OLED_COLOR_BLACK] s2;
                                s4 = emit [OLED_Update] (s3\<lparr>playerTurn := FIELD_OLED_TURN_THEIRS\<rparr>);
                                s5 = emit [printf (''ACCEPTING -> DEFENDING'' @ [LF])]
                                       (s4\<lparr>agentState := AGENT_STATE_DEFENDING\<rparr>)
                            in Some (msg, emit [draw_screen s5] s5))))
          else Some (messageToSend, s)
      | AGENT_STATE_ATTACKING \<Rightarrow>
          if etype event = BB_EVENT_RES_RECEIVED then
            (let s1 = s\<lparr>own_guess := (own_guess s)\<lparr>guess_result := unat (eparam2 event)\<rparr>\<rparr>
             in case FieldUpdateKnowledge ext (oppField s1) (own_guess s1) of
                  None \<Rightarrow> None
                | Some (prev, opp) \<Rightarrow>
                   (let s2 = s1\<lparr>oppField := opp\<rparr>;
                        oppState = FieldGetBoatStates (oppField s2);
                        s3 = emit [printf (''DEBUG: Opponent boat state after update = ''
                                      @ fmt_u (uint oppState) @ [LF])] s2;
                        s4 = emit [draw_screen s3, OLED_Update] s3
                    in if oppState = 0 then
                         Some (messageToSend,
                           emit [printf (''ATTACKING -> END SCREEN'' @ [LF])]
                             ((emit [OLED_Clear OLED_COLOR_BLACK, OLED_DrawString ''VICTORY'',
                                     OLED_Update, HAL_Delay 1000] s4)
                                \<lparr>agentState := AGENT_STATE_END_SCREEN\<rparr>))
                       else
                         Some (messageToSend,
                           emit [printf (''ATTACKING -> DEFENDING'' @ [LF])]
                             (s4\<lparr>agentState := AGENT_STATE_DEFENDING\<rparr>))))
          else Some (messageToSend, s)
      | AGENT_STATE_DEFENDING \<Rightarrow>
          if etype event = BB_EVENT_SHO_RECEIVED then
            (let incomingGuess = \<lparr>guess_row = ucast (eparam0 event), guess_col = ucast (eparam1 event),
                                  guess_result = 0\<rparr>
             in case FieldRegisterEnemyAttack ext (ownField s) incomingGuess of
                  None \<Rightarrow> None
                | Some (before, own, attacked) \<Rightarrow>
                   (let incomingGuess = attacked\<lparr>guess_result := square_code ext before\<rparr>;
                        s1 = s\<lparr>ownField := own\<rparr>;
                        msg = messageToSend\<lparr>mtype := MESSAGE_RES,
                                mparam0 := ucast (guess_row incomingGuess),
                                mparam1 := ucast (guess_col incomingGuess),
                                mparam2 := of_nat (guess_result incomingGuess)\<rparr>;
                        s2 = emit [draw_screen s1, OLED_Update] s1
                    in if FieldGetBoatStates (ownField s2) = 0 then
                         Some (msg, emit [printf (''DEFENDING -> END SCREEN'' @ [LF])]
                                      (s2\<lparr>agentState := AGENT_STATE_END_SCREEN\<rparr>))
                       else
                         Some (msg, emit [printf (''DEFENDING -> WAITING TO SEND'' @ [LF])]
                                      (s2\<lparr>agentState := AGENT_STATE_WAITING_TO_SEND\<rparr>))))
          else Some (messageToSend, s)
      | AGENT_STATE_WAITING_TO_SEND \<Rightarrow>
          if etype event = BB_EVENT_MESSAGE_SENT then
            (let s1 = s\<lparr>turn_counter := turn_counter s + 1\<rparr>
             in case FieldAIDecideGuess ext (ai_vars s1) (oppField s1) of
                  None \<Rightarrow> None
                | Some (guess, vars) \<Rightarrow>
                   (let s2 = s1\<lparr>own_guess := guess, ai_vars := vars\<rparr>;
                        msg = messageToSend\<lparr>mtype := MESSAGE_SHO,
                                mparam0 := ucast (guess_row (own_guess s2)),
                                mparam1 := ucast (guess_col (own_guess s2))\<rparr>;
                        s3 = emit [printf (''WAITING TO SEND -> ATTACKING'' @ [LF])]
                               (s2\<lparr>agentState := AGENT_STATE_ATTACKING\<rparr>)
                    in Some (msg, emit [draw_screen s3] s3)))
          else Some (messageToSend, s)
      | AGENT_STATE_END_SCREEN \<Rightarrow>
          if \<not> endScreenDrawn s then
            (let s1 = emit [OLED_Clear OLED_COLOR_BLACK] s;
                 oppState = FieldGetBoatStates (oppField s1);
                 ownState = FieldGetBoatStates (ownField s1);
                 s2 = emit [printf (''DEBUG: Opponent boat state = '' @ fmt_u (uint oppState) @ [LF]),
                            printf (''DEBUG: Own boat state = '' @ fmt_u (uint ownState) @ [LF])] s1;
                 s3 = (if oppState = 0 \<and> ownState \<noteq> 0 then
                         emit [OLED_DrawString ''VICTORY'', printf (''GAME OVER: YOU WIN'' @ [LF])] s2
                       else if ownState = 0 \<and> oppState \<noteq> 0 then
                         emit [OLED_DrawString ''ALAS DEFEAT...'', printf (''GAME OVER: YOU LOSE'' @ [LF])] s2
                       else if ownState = 0 \<and> oppState = 0 then
                         emit [OLED_DrawString ''DRAW'', printf (''GAME OVER: DRAW'' @ [LF])] s2
                       else s2)
             in Some (messageToSend, (emit [OLED_Update] s3)\<lparr>endScreenDrawn := True\<rparr>))
          else Some (messageToSend, s))"

definition AgentGetState :: "agent \<Rightarrow> AgentState" where
  "AgentGetState s = agentState s"

definition AgentSetState :: "AgentState \<Rightarrow> agent \<Rightarrow> agent" where
  "AgentSetState newState s = s\<lparr>agentState := newState\<rparr>"

section \<open>Auxiliary notions for the codec proofs\<close>

text \<open>A byte that \<^verbatim>\<open>Message_Decode\<close> appends to the payload when there is room.\<close>

definition payload_char :: "char \<Rightarrow> bool" where
  "payload_char c = (c \<noteq> CHR ''*'' \<and> c \<noteq> CR \<and> c \<noteq> CHR ''$'')"

text \<open>The payload array after the bytes \<open>q\<close> have been stored in a cleared array.\<close>

definition payload_buf :: "string \<Rightarrow> string" where
  "payload_buf q = q @ replicate (MESSAGE_MAX_PAYLOAD_LEN + 1 - length q) NUL"

text \<open>A frame on the wire: start delimiter, payload, checksum delimiter, two checksum
  characters, carriage return, line feed.\<close>

definition frame :: "string \<Rightarrow> char \<Rightarrow> char \<Rightarrow> string" where
  "frame p c1 c2 = CHR ''$'' # p @ [CHR ''*'', c1, c2, CR, LF]"

text \<open>What \<^verbatim>\<open>Message_Decode\<close> makes of the parser's result.\<close>

definition finish :: "status \<times> BB_Event \<Rightarrow> status \<times> BB_Event" where
  "finish x = (if fst x = SUCCESS then x else (STANDARD_ERROR, (snd x)\<lparr>etype := BB_EVENT_ERROR\<rparr>))"

text \<open>What the static variables hold after the bytes \<open>bs\<close>.\<close>

definition tracks :: "string \<Rightarrow> decoder \<Rightarrow> bool" where
  "tracks bs d =
     (\<exists>p c1 c2.
        length p \<le> 76 \<and> payload_buffer d = payload_buf p \<and>
        0 \<le> payload_index d \<and> payload_index d \<le> 76 \<and>
        0 \<le> checksum_index d \<and> checksum_index d \<le> 3 \<and>
        checksum_buffer d = [c1, c2, NUL] \<and>
        (decode_state d = WAIT_FOR_START_DELIMITER \<or>
         (list_all payload_char p \<and> payload_index d = int (length p) \<and>
          (\<exists>pre.
            (decode_state d = RECORDING_PAYLOAD \<and> checksum_index d = 0 \<and>
               c1 = NUL \<and> c2 = NUL \<and> bs = pre @ CHR ''$'' # p) \<or>
            (decode_state d = RECORDING_CHECKSUM \<and>
               (checksum_index d = 0 \<and> c1 = NUL \<and> c2 = NUL \<and> bs = pre @ CHR ''$'' # p @ [CHR ''*''] \<or>
                checksum_index d = 1 \<and> isxdigit c1 \<and> c2 = NUL \<and> bs = pre @ CHR ''$'' # p @ [CHR ''*'', c1] \<or>
                checksum_index d = 2 \<and> isxdigit c1 \<and> isxdigit c2 \<and>
                   bs = pre @ CHR ''$'' # p @ [CHR ''*'', c1, c2] \<or>
                checksum_index d = 3 \<and> isxdigit c1 \<and> isxdigit c2 \<and>
                   bs = pre @ CHR ''$'' # p @ [CHR ''*'', c1, c2, CR]))))))"

text \<open>
  The malformations that a byte \<open>c\<close> can show to a decoder whose static variables are \<open>d\<close>.
  A framing error: a carriage return or a second start delimiter inside the payload, or
  something else than the carriage return and then the line feed after the two checksum
  characters.  An oversized payload: a further payload byte when the payload already has
  \<^verbatim>\<open>MESSAGE_MAX_PAYLOAD_LEN\<close> bytes.  A bad checksum character: a byte that is not a
  hexadecimal digit where one of the two checksum characters is due.  A parse failure: the
  line feed that ends the frame, when \<^verbatim>\<open>Message_ParseMessage\<close> refuses the payload and
  checksum that were recorded.
\<close>

definition framing_error :: "decoder \<Rightarrow> char \<Rightarrow> bool" where
  "framing_error d c =
     (decode_state d = RECORDING_PAYLOAD \<and> (c = CR \<or> c = CHR ''$'') \<or>
      decode_state d = RECORDING_CHECKSUM \<and>
        (checksum_index d = 2 \<and> c \<noteq> CR \<or> checksum_index d = 3 \<and> c \<noteq> LF))"

definition oversized_payload :: "decoder \<Rightarrow> char \<Rightarrow> bool" where
  "oversized_payload d c =
     (decode_state d = RECORDING_PAYLOAD \<and> payload_char c \<and>
      int MESSAGE_MAX_PAYLOAD_LEN \<le> payload_index d)"

definition bad_checksum_character :: "decoder \<Rightarrow> char \<Rightarrow> bool" where
  "bad_checksum_character d c =
     (decode_state d = RECORDING_CHECKSUM \<and> checksum_index d < 2 \<and> \<not> isxdigit c)"

definition parse_failure :: "decoder \<Rightarrow> char \<Rightarrow> BB_Event \<Rightarrow> bool" where
  "parse_failure d c ev =
     (decode_state d = RECORDING_CHECKSUM \<and> checksum_index d = 3 \<and> c = LF \<and>
      fst (Message_ParseMessage (cstr (payload_buffer d)) (cstr (checksum_buffer d)) ev)
        \<noteq> SUCCESS)"

definition malformation :: "decoder \<Rightarrow> char \<Rightarrow> BB_Event \<Rightarrow> bool" where
  "malformation d c ev =
     (framing_error d c \<or> oversized_payload d c \<or> bad_checksum_character d c \<or>
      parse_failure d c ev)"

text \<open>The payload that \<^verbatim>\<open>Message_Encode\<close> formats, and the event that corresponds to a
  message: its type and the parameters of its template, the other parameters being those
  the caller's event structure held before.\<close>

definition payload_text :: "Message \<Rightarrow> string" where
  "payload_text m =
     (case mtype m of
        MESSAGE_CHA \<Rightarrow> ''CHA,'' @ fmt_u (uint (mparam0 m))
      | MESSAGE_ACC \<Rightarrow> ''ACC,'' @ fmt_u (uint (mparam0 m))
      | MESSAGE_REV \<Rightarrow> ''REV,'' @ fmt_u (uint (mparam0 m))
      | MESSAGE_SHO \<Rightarrow> ''SHO,'' @ fmt_d (uint (mparam0 m)) @ '','' @ fmt_d (uint (mparam1 m))
      | MESSAGE_RES \<Rightarrow> ''RES,'' @ fmt_u (uint (mparam0 m)) @ '','' @ fmt_u (uint (mparam1 m))
                         @ '','' @ fmt_u (uint (mparam2 m))
      | MESSAGE_NONE \<Rightarrow> [])"

definition event_for :: "Message \<Rightarrow> BB_Event \<Rightarrow> BB_Event" where
  "event_for m ev =
     (case mtype m of
        MESSAGE_CHA \<Rightarrow> ev\<lparr>etype := BB_EVENT_CHA_RECEIVED, eparam0 := mparam0 m\<rparr>
      | MESSAGE_ACC \<Rightarrow> ev\<lparr>etype := BB_EVENT_ACC_RECEIVED, eparam0 := mparam0 m\<rparr>
      | MESSAGE_REV \<Rightarrow> ev\<lparr>etype := BB_EVENT_REV_RECEIVED, eparam0 := mparam0 m\<rparr>
      | MESSAGE_SHO \<Rightarrow> ev\<lparr>etype := BB_EVENT_SHO_RECEIVED, eparam0 := mparam0 m, eparam1 := mparam1 m\<rparr>
      | MESSAGE_RES \<Rightarrow> ev\<lparr>etype := BB_EVENT_RES_RECEIVED, eparam0 := mparam0 m, eparam1 := mparam1 m,
                          eparam2 := mparam2 m\<rparr>
      | MESSAGE_NONE \<Rightarrow> ev)"

text \<open>An event structure as a caller first holds it, and the types of the events that
  the decoder reports on a byte sequence, from its initial state.\<close>

definition ev0 :: BB_Event where
  "ev0 = \<lparr>etype = BB_EVENT_NO_EVENT, eparam0 = 0, eparam1 = 0, eparam2 = 0\<rparr>"

definition decoded_types :: "string \<Rightarrow> BB_EventType list option" where
  "decoded_types bs =
     map_option (\<lambda>(out, d). map (\<lambda>(r, e). etype e) out) (decode_stream bs ev0 decoder_init)"

section \<open>Auxiliary notions for the parser and agent proofs\<close>

text \<open>A field as \<^verbatim>\<open>sscanf\<close> reads it with \<^verbatim>\<open>%u\<close> or \<^verbatim>\<open>%d\<close>: white space, an optional
  sign, and at least one decimal digit.\<close>

definition field_text :: "string \<Rightarrow> bool" where
  "field_text f =
     (\<exists>ws sg ds. f = ws @ sg @ ds \<and> list_all isspace ws \<and> (sg = [] \<or> sg = ''+'' \<or> sg = ''-'') \<and>
        ds \<noteq> [] \<and> list_all isdigit ds)"

text \<open>The payloads that begin with a tag, a comma and the fields of the tag's template,
  whatever follows the last field.\<close>

definition accepted_payload :: "string \<Rightarrow> bool" where
  "accepted_payload p =
     ((\<exists>f rest. field_text f \<and>
         (p = ''CHA,'' @ f @ rest \<or> p = ''ACC,'' @ f @ rest \<or> p = ''REV,'' @ f @ rest)) \<or>
      (\<exists>f1 f2 rest. field_text f1 \<and> field_text f2 \<and> p = ''SHO,'' @ f1 @ '','' @ f2 @ rest) \<or>
      (\<exists>f1 f2 f3 rest. field_text f1 \<and> field_text f2 \<and> field_text f3 \<and>
         p = ''RES,'' @ f1 @ '','' @ f2 @ '','' @ f3 @ rest))"

text \<open>The checksum string has two characters, and \<^verbatim>\<open>%2X\<close> reads from it the number that
  is the checksum of the payload.\<close>

definition checksum_matches :: "string \<Rightarrow> string \<Rightarrow> bool" where
  "checksum_matches cs p =
     (length cs = MESSAGE_CHECKSUM_LEN \<and>
      (case sscanf_2X cs of None \<Rightarrow> False | Some v \<Rightarrow> Message_CalculateChecksum p = ucast v))"

text \<open>The character \<open>c\<close> with bit \<open>i\<close> flipped.\<close>

definition flip_char :: "nat \<Rightarrow> char \<Rightarrow> char" where
  "flip_char i c = char_of (flip_bit i (of_char c :: int))"

text \<open>The events that a state of \<^verbatim>\<open>AgentRun\<close> tests for; the reset event is tested
  before the state is looked at.\<close>

definition handled :: "AgentState \<Rightarrow> BB_EventType \<Rightarrow> bool" where
  "handled st e =
     (case st of
        AGENT_STATE_START \<Rightarrow> e = BB_EVENT_START_BUTTON \<or> e = BB_EVENT_CHA_RECEIVED
      | AGENT_STATE_CHALLENGING \<Rightarrow> e = BB_EVENT_ACC_RECEIVED
      | AGENT_STATE_ACCEPTING \<Rightarrow> e = BB_EVENT_REV_RECEIVED
      | AGENT_STATE_ATTACKING \<Rightarrow> e = BB_EVENT_RES_RECEIVED
      | AGENT_STATE_DEFENDING \<Rightarrow> e = BB_EVENT_SHO_RECEIVED
      | AGENT_STATE_WAITING_TO_SEND \<Rightarrow> e = BB_EVENT_MESSAGE_SENT
      | AGENT_STATE_END_SCREEN \<Rightarrow> False)"

text \<open>The message that \<^verbatim>\<open>AgentRun\<close> starts from: \<^verbatim>\<open>{ .type = MESSAGE_NONE }\<close>.\<close>

definition no_message :: Message where
  "no_message = \<lparr>mtype = MESSAGE_NONE, mparam0 = 0, mparam1 = 0, mparam2 = 0\<rparr>"

text \<open>The type of the message returned by a call of \<^verbatim>\<open>AgentRun\<close> and the state after
  it.\<close>

definition outcome :: "(Message \<times> agent) option \<Rightarrow> (MessageType \<times> AgentState) option" where
  "outcome r = map_option (\<lambda>(m, s). (mtype m, agentState s)) r"

text \<open>A run of \<^verbatim>\<open>AgentRun\<close> over a list of events, and what an observer sees of it: the
  messages returned, the state reached, and the calls recorded.\<close>

fun AgentRun_all :: "externals \<Rightarrow> BB_Event list \<Rightarrow> agent \<Rightarrow> (Message list \<times> agent) option" where
  "AgentRun_all ext [] s = Some ([], s)"
| "AgentRun_all ext (e # es) s =
     (case AgentRun ext e s of
        None \<Rightarrow> None
      | Some (m, s') \<Rightarrow>
         (case AgentRun_all ext es s' of
            None \<Rightarrow> None
          | Some (ms, s'') \<Rightarrow> Some (m # ms, s'')))"

definition observed :: "(Message list \<times> agent) option \<Rightarrow> (Message list \<times> AgentState \<times> effect list) option" where
  "observed r = map_option (\<lambda>(ms, s). (ms, agentState s, effects s)) r"

text \<open>Two agents that differ at most in \<^verbatim>\<open>turn_order\<close> and \<^verbatim>\<open>own_guess\<close>, and not in
  the coordinates of \<^verbatim>\<open>own_guess\<close> while attacking.\<close>

definition same_live :: "agent \<Rightarrow> agent \<Rightarrow> bool" where
  "same_live s t =
     (agentState s = agentState t \<and> turn_counter s = turn_counter t \<and> oppField s = oppField t \<and>
      ownField s = ownField t \<and> A s = A t \<and> B s = B t \<and> hashA s = hashA t \<and>
      playerTurn s = playerTurn t \<and> endScreenDrawn s = endScreenDrawn t \<and>
      ai_vars s = ai_vars t \<and> rand_calls s = rand_calls t \<and> effects s = effects t \<and>
      (agentState s \<noteq> AGENT_STATE_ATTACKING \<or>
       guess_row (own_guess s) = guess_row (own_guess t) \<and>
       guess_col (own_guess s) = guess_col (own_guess t)))"

text \<open>Values for the parameters of the model, and states to evaluate it at: a header with
  boat sizes 3, 4, 5 and 6 and the enumeration constants numbered from 0, the negotiation
  functions of the spec, an agent as
  \<^verbatim>\<open>AgentInit\<close> leaves it, and one that has accepted a challenge with commitment 1 and
  chosen \<open>B = 0\<close>.\<close>

definition ext0 :: externals where
  "ext0 = \<lparr>rand_value = (\<lambda>n. 7 * n + 3),
      NegotiationHash = commit, NegotiationVerify = verify, NegotiateCoinFlip = coinFlip,
      FIELD_BOAT_SIZE_SMALL = 3, FIELD_BOAT_SIZE_MEDIUM = 4, FIELD_BOAT_SIZE_LARGE = 5, FIELD_BOAT_SIZE_HUGE = 6,
      RESULT_MISS = 0, RESULT_HIT = 1, RESULT_SMALL_BOAT_SUNK = 2, RESULT_MEDIUM_BOAT_SUNK = 3,
      RESULT_LARGE_BOAT_SUNK = 4, RESULT_HUGE_BOAT_SUNK = 5,
      square_code = (\<lambda>s. case s of FIELD_SQUARE_EMPTY \<Rightarrow> 0 | FIELD_SQUARE_SMALL_BOAT \<Rightarrow> 1
         | FIELD_SQUARE_MEDIUM_BOAT \<Rightarrow> 2 | FIELD_SQUARE_LARGE_BOAT \<Rightarrow> 3 | FIELD_SQUARE_HUGE_BOAT \<Rightarrow> 4
         | FIELD_SQUARE_UNKNOWN \<Rightarrow> 5 | FIELD_SQUARE_HIT \<Rightarrow> 6 | FIELD_SQUARE_MISS \<Rightarrow> 7
         | FIELD_SQUARE_CURSOR \<Rightarrow> 8 | FIELD_SQUARE_INVALID \<Rightarrow> 9)\<rparr>"

definition field0 :: "SquareStatus \<Rightarrow> 8 word \<Rightarrow> 8 word \<Rightarrow> 8 word \<Rightarrow> 8 word \<Rightarrow> Field" where
  "field0 p a b c d = \<lparr>grid = replicate FIELD_ROWS (replicate FIELD_COLS p), smallBoatLives = a,
     mediumBoatLives = b, largeBoatLives = c, hugeBoatLives = d\<rparr>"

definition agent0 :: agent where
  "agent0 = \<lparr>agentState = AGENT_STATE_START, turn_counter = 0,
     oppField = field0 FIELD_SQUARE_UNKNOWN 3 4 5 6, ownField = field0 FIELD_SQUARE_EMPTY 0 0 0 0,
     A = 0, B = 0, hashA = 0, own_guess = \<lparr>guess_row = 0, guess_col = 0, guess_result = 0\<rparr>,
     playerTurn = FIELD_OLED_TURN_NONE, turn_order = HEADS, endScreenDrawn = False,
     ai_vars = ai_static_init ext0, rand_calls = 0, effects = []\<rparr>"

definition accepting0 :: agent where
  "accepting0 = agent0\<lparr>agentState := AGENT_STATE_ACCEPTING, hashA := 1, B := 0\<rparr>"

text \<open>The state that a reset event leaves.\<close>

definition reset_state :: "externals \<Rightarrow> agent \<Rightarrow> agent" where
  "reset_state ext s =
     s\<lparr>agentState := AGENT_STATE_START, turn_counter := 0, A := 0, B := 0, hashA := 0,
       playerTurn := FIELD_OLED_TURN_NONE, endScreenDrawn := False,
       ownField :=
         \<lparr>grid = replicate FIELD_ROWS (replicate FIELD_COLS FIELD_SQUARE_EMPTY),
          smallBoatLives = 0, mediumBoatLives = 0, largeBoatLives = 0, hugeBoatLives = 0\<rparr>,
       oppField :=
         \<lparr>grid = replicate FIELD_ROWS (replicate FIELD_COLS FIELD_SQUARE_UNKNOWN),
          smallBoatLives = FIELD_BOAT_SIZE_SMALL ext,
          mediumBoatLives = FIELD_BOAT_SIZE_MEDIUM ext,
          largeBoatLives = FIELD_BOAT_SIZE_LARGE ext,
          hugeBoatLives = FIELD_BOAT_SIZE_HUGE ext\<rparr>,
       effects := effects s @
         [OLED_Init, OLED_Clear OLED_COLOR_BLACK, OLED_DrawString banner, OLED_Update]\<rparr>"

section \<open>Characters, digits and conversions\<close>

lemma of_char_digit_char: "0 \<le> d \<Longrightarrow> d < 16 \<Longrightarrow> (of_char (digit_char d) :: int) = (if d < 10 then 48 + d else 55 + d)"
  by (simp add: digit_char_def)

lemma isdigit_digit_char: "0 \<le> d \<Longrightarrow> d < 10 \<Longrightarrow> isdigit (digit_char d)"
  by (simp add: isdigit_def of_char_digit_char)

lemma digit_val_digit_char: "0 \<le> d \<Longrightarrow> d < 16 \<Longrightarrow> digit_val (digit_char d) = d"
  by (simp add: digit_val_def of_char_digit_char)

lemma isxdigit_digit_char: "0 \<le> d \<Longrightarrow> d < 16 \<Longrightarrow> isxdigit (digit_char d)"
  by (simp add: isxdigit_def of_char_digit_char)

lemma isdigit_of_char: "isdigit c \<longleftrightarrow> 48 \<le> (of_char c :: int) \<and> (of_char c :: int) \<le> 57"
  by (simp add: isdigit_def)

lemma isdigit_not_special:
  assumes "isdigit c"
  shows "\<not> isspace c" "c \<noteq> CHR ''-''" "c \<noteq> CHR ''+''" "c \<noteq> CHR '',''" "c \<noteq> CHR ''$''" "c \<noteq> CHR ''*''" "c \<noteq> CR" "c \<noteq> NUL" "c \<noteq> LF"
  using assms by (auto simp: isdigit_def isspace_def CR_def NUL_def LF_def)

lemma isxdigit_not_special:
  assumes "isxdigit c"
  shows "\<not> isspace c" "c \<noteq> CHR ''-''" "c \<noteq> CHR ''+''" "c \<noteq> NUL"
  using assms by (auto simp: isxdigit_def isspace_def NUL_def)

lemma fmt_u_digits: "0 \<le> n \<Longrightarrow> list_all isdigit (fmt_u n) \<and> fmt_u n \<noteq> []"
proof (induction n rule: fmt_u.induct)
  case (1 n)
  show ?case
  proof (cases "n < 10")
    case True
    with 1(2) show ?thesis by (simp add: fmt_u.simps isdigit_digit_char)
  next
    case False
    then have "0 \<le> n div 10" by simp
    with 1(1) False have "list_all isdigit (fmt_u (n div 10))" by simp
    moreover have "isdigit (digit_char (n mod 10))" by (simp add: isdigit_digit_char)
    ultimately show ?thesis using False by (subst fmt_u.simps, subst (2) fmt_u.simps) simp
  qed
qed

lemma digits_val_snoc: "digits_val b (ds @ [c]) = b * digits_val b ds + digit_val c"
  by (simp add: digits_val_def)

lemma digits_val_fmt_u: "0 \<le> n \<Longrightarrow> digits_val 10 (fmt_u n) = n"
proof (induction n rule: fmt_u.induct)
  case (1 n)
  show ?case
  proof (cases "n < 10")
    case True
    with 1(2) show ?thesis by (simp add: fmt_u.simps digits_val_def digit_val_digit_char)
  next
    case False
    then have "digits_val 10 (fmt_u (n div 10)) = n div 10" using 1(1) by simp
    then show ?thesis using False
      by (subst fmt_u.simps) (simp add: digits_val_snoc digit_val_digit_char)
  qed
qed

lemma length_fmt_u: "0 \<le> n \<Longrightarrow> n < 10 ^ Suc k \<Longrightarrow> length (fmt_u n) \<le> Suc k"
proof (induction k arbitrary: n)
  case 0
  then show ?case by (simp add: fmt_u.simps)
next
  case (Suc k)
  show ?case
  proof (cases "n < 10")
    case True
    then show ?thesis by (simp add: fmt_u.simps)
  next
    case False
    have "n div 10 < 10 ^ Suc k" using Suc.prems by simp
    moreover have "0 \<le> n div 10" using False by simp
    ultimately have "length (fmt_u (n div 10)) \<le> Suc k" by (rule Suc.IH[rotated])
    then show ?thesis using False by (subst fmt_u.simps) simp
  qed
qed

lemma takeWhile_run: "list_all P ds \<Longrightarrow> rest = [] \<or> \<not> P (hd rest) \<Longrightarrow> takeWhile P (ds @ rest) = ds"
  by (induction ds) (cases rest; auto)+

lemma dropWhile_run: "list_all P ds \<Longrightarrow> rest = [] \<or> \<not> P (hd rest) \<Longrightarrow> dropWhile P (ds @ rest) = rest"
  by (induction ds) (cases rest; auto)+

lemma scan_num_digits:
  assumes "list_all isdigit ds" "ds \<noteq> []" "rest = [] \<or> \<not> isdigit (hd rest)"
  shows "scan_num conv (ds @ rest) = Some (conv False (digits_val 10 ds), rest)"
proof -
  from assms obtain d ds' where ds: "ds = d # ds'" and d: "isdigit d"
    by (cases ds) auto
  have "dropWhile isspace (ds @ rest) = ds @ rest"
    using d by (simp add: ds isdigit_not_special)
  moreover have "scan_sign (ds @ rest) = (False, ds @ rest)"
    using d by (simp add: ds scan_sign_def isdigit_not_special)
  ultimately show ?thesis
    using assms by (simp add: scan_num_def takeWhile_run dropWhile_run)
qed

lemma scan_num_fmt_u:
  assumes "0 \<le> n" "rest = [] \<or> \<not> isdigit (hd rest)"
  shows "scan_num conv (fmt_u n @ rest) = Some (conv False n, rest)"
  using scan_num_digits[of "fmt_u n" rest conv] fmt_u_digits[OF assms(1)] assms
  by (simp add: digits_val_fmt_u)

lemma ucast_8_32_8: "(ucast (ucast (w :: 8 word) :: 32 word) :: 8 word) = w"
  by (rule bit_word_eqI) (auto simp: bit_simps)

lemma uint_div16: "0 \<le> uint (w :: 8 word) div 16 \<and> uint w div 16 < 16"
proof -
  have "uint w < 256" "0 \<le> uint w" using uint_bounded[of w] by simp_all
  then show ?thesis by presburger
qed

lemma sscanf_2X_fmt_02X: "sscanf_2X (fmt_02X w) = Some (ucast w)"
proof -
  let ?a = "digit_char (uint w div 16)" and ?b = "digit_char (uint w mod 16)"
  have a: "isxdigit ?a" "digit_val ?a = uint w div 16"
    using uint_div16[of w] by (simp_all add: isxdigit_digit_char digit_val_digit_char)
  have b: "isxdigit ?b" "digit_val ?b = uint w mod 16"
    by (simp_all add: isxdigit_digit_char digit_val_digit_char)
  have "digits_val 16 [?a, ?b] = uint w"
    by (simp add: digits_val_def a b)
  then show ?thesis
    using a(1) b(1)
    by (simp add: sscanf_2X_def fmt_02X_def isxdigit_not_special scan_sign_def)
qed

lemma checksum_accepted:
  "length (fmt_02X w) = MESSAGE_CHECKSUM_LEN"
  by (simp add: fmt_02X_def MESSAGE_CHECKSUM_LEN_def)

section \<open>Decoding a frame\<close>

lemma MAXP: "MESSAGE_MAX_PAYLOAD_LEN = 76"
  by (simp add: MESSAGE_MAX_PAYLOAD_LEN_def MESSAGE_MAX_LEN_def)

lemma payload_buf_update:
  "length q < 77 \<Longrightarrow> (payload_buf q)[length q := c] = q @ c # replicate (76 - length q) NUL"
  by (cases "77 - length q") (simp_all add: payload_buf_def MAXP list_update_append)

lemma payload_buf_snoc:
  "length q < 76 \<Longrightarrow> q @ c # replicate (76 - length q) NUL = payload_buf (q @ [c])"
  by (simp add: payload_buf_def MAXP)

lemma payload_buf_nul:
  "length q < 77 \<Longrightarrow> (payload_buf q)[length q := NUL] = payload_buf q"
  by (cases "77 - length q") (simp_all add: payload_buf_def MAXP list_update_append)

lemma length_payload_buf: "length q \<le> 77 \<Longrightarrow> length (payload_buf q) = 77"
  by (simp add: payload_buf_def MAXP)

lemma Message_Decode_payload_step:
  assumes "decode_state d = RECORDING_PAYLOAD" "payload_char c"
    "payload_index d = int (length q)" "length q < 76" "payload_buffer d = payload_buf q"
  shows "Message_Decode c ev d =
           Some (SUCCESS, ev\<lparr>etype := BB_EVENT_NO_EVENT\<rparr>,
                 d\<lparr>payload_buffer := payload_buf (q @ [c]), payload_index := int (length (q @ [c]))\<rparr>)"
proof -
  have s1: "store (payload_buf q) (int (length q)) c = Some (payload_buf (q @ [c]))"
    using assms(4) by (simp add: store_def length_payload_buf payload_buf_update payload_buf_snoc)
  have s2: "store (payload_buf (q @ [c])) (int (length q) + 1) NUL = Some (payload_buf (q @ [c]))"
    using assms(4) payload_buf_nul[of "q @ [c]"]
    by (simp add: store_def length_payload_buf nat_add_distrib)
  show ?thesis
    using assms(1,2,3,4)
    by (simp add: Message_Decode_def payload_char_def assms(5) s1 s2 MAXP)
qed

lemma decode_stream_append:
  "decode_stream (xs @ ys) ev d =
     (case decode_stream xs ev d of
        None \<Rightarrow> None
      | Some (out, d') \<Rightarrow>
          (case decode_stream ys (if out = [] then ev else snd (last out)) d' of
             None \<Rightarrow> None
           | Some (out', d'') \<Rightarrow> Some (out @ out', d'')))"
  by (induction xs arbitrary: ev d) (auto split: option.splits prod.splits)

lemma decode_stream_payload:
  assumes "list_all payload_char p" "decode_state d = RECORDING_PAYLOAD"
    "payload_index d = int (length q)" "payload_buffer d = payload_buf q"
    "length q + length p \<le> 76" "etype ev = BB_EVENT_NO_EVENT"
  shows "decode_stream p ev d =
           Some (replicate (length p) (SUCCESS, ev),
                 d\<lparr>payload_buffer := payload_buf (q @ p), payload_index := int (length (q @ p))\<rparr>)"
  using assms
proof (induction p arbitrary: q d)
  case Nil
  then show ?case by simp
next
  case (Cons c p)
  have ev: "ev\<lparr>etype := BB_EVENT_NO_EVENT\<rparr> = ev" using Cons.prems(6) by simp
  let ?d = "d\<lparr>payload_buffer := payload_buf (q @ [c]), payload_index := int (length (q @ [c]))\<rparr>"
  have step: "Message_Decode c ev d = Some (SUCCESS, ev, ?d)"
    using Message_Decode_payload_step[of d c q ev] Cons.prems by (simp add: ev)
  have "decode_stream p ev ?d =
          Some (replicate (length p) (SUCCESS, ev),
                ?d\<lparr>payload_buffer := payload_buf ((q @ [c]) @ p), payload_index := int (length ((q @ [c]) @ p))\<rparr>)"
    using Cons.prems by (intro Cons.IH) simp_all
  then show ?case using step by simp
qed

lemma cstr_of_payload_buf: "length p \<le> 76 \<Longrightarrow> cstr_of (payload_buf p) = Some (cstr p)"
  by (cases "77 - length p") (auto simp: cstr_of_def cstr_def payload_buf_def MAXP takeWhile_tail)

lemma Message_Decode_start:
  "decode_state d = WAIT_FOR_START_DELIMITER \<Longrightarrow>
   Message_Decode (CHR ''$'') ev d =
     Some (SUCCESS, ev\<lparr>etype := BB_EVENT_NO_EVENT\<rparr>,
       d\<lparr>payload_index := 0, checksum_index := 0, payload_buffer := payload_buf [],
         checksum_buffer := [NUL, NUL, NUL], decode_state := RECORDING_PAYLOAD\<rparr>)"
  by (simp add: Message_Decode_def payload_buf_def MESSAGE_CHECKSUM_LEN_def numeral_3_eq_3)

lemma Message_Decode_star:
  "decode_state d = RECORDING_PAYLOAD \<Longrightarrow>
   Message_Decode (CHR ''*'') ev d =
     Some (SUCCESS, ev\<lparr>etype := BB_EVENT_NO_EVENT\<rparr>, d\<lparr>decode_state := RECORDING_CHECKSUM\<rparr>)"
  by (simp add: Message_Decode_def)

lemma Message_Decode_cs0:
  "decode_state d = RECORDING_CHECKSUM \<Longrightarrow> checksum_index d = 0 \<Longrightarrow>
   checksum_buffer d = [a, b, c] \<Longrightarrow> isxdigit x \<Longrightarrow>
   Message_Decode x ev d =
     Some (SUCCESS, ev\<lparr>etype := BB_EVENT_NO_EVENT\<rparr>,
           d\<lparr>checksum_buffer := [x, NUL, c], checksum_index := 1\<rparr>)"
  by (simp add: Message_Decode_def store_def MESSAGE_CHECKSUM_LEN_def)

lemma Message_Decode_cs1:
  "decode_state d = RECORDING_CHECKSUM \<Longrightarrow> checksum_index d = 1 \<Longrightarrow>
   checksum_buffer d = [a, b, c] \<Longrightarrow> isxdigit x \<Longrightarrow>
   Message_Decode x ev d =
     Some (SUCCESS, ev\<lparr>etype := BB_EVENT_NO_EVENT\<rparr>,
           d\<lparr>checksum_buffer := [a, x, NUL], checksum_index := 2\<rparr>)"
  by (simp add: Message_Decode_def store_def MESSAGE_CHECKSUM_LEN_def)

lemma Message_Decode_cr:
  "decode_state d = RECORDING_CHECKSUM \<Longrightarrow> checksum_index d = 2 \<Longrightarrow>
   Message_Decode CR ev d =
     Some (SUCCESS, ev\<lparr>etype := BB_EVENT_NO_EVENT\<rparr>, d\<lparr>checksum_index := 3\<rparr>)"
  by (simp add: Message_Decode_def MESSAGE_CHECKSUM_LEN_def)

lemma Message_Decode_lf:
  "decode_state d = RECORDING_CHECKSUM \<Longrightarrow> checksum_index d = 3 \<Longrightarrow>
   cstr_of (payload_buffer d) = Some p \<Longrightarrow> cstr_of (checksum_buffer d) = Some cs \<Longrightarrow>
   Message_Decode LF ev d =
     Some (fst (finish (Message_ParseMessage p cs ev)), snd (finish (Message_ParseMessage p cs ev)),
           d\<lparr>decode_state := WAIT_FOR_START_DELIMITER\<rparr>)"
  by (simp add: Message_Decode_def MESSAGE_CHECKSUM_LEN_def finish_def split: prod.splits)

lemma decode_stream_trailer:
  assumes "decode_state d = RECORDING_PAYLOAD" "checksum_index d = 0"
    "checksum_buffer d = [NUL, NUL, NUL]" "payload_buffer d = payload_buf p" "length p \<le> 76"
    "isxdigit c1" "isxdigit c2" "etype ev = BB_EVENT_NO_EVENT"
  shows "decode_stream [CHR ''*'', c1, c2, CR, LF] ev d =
           Some (replicate 4 (SUCCESS, ev) @ [finish (Message_ParseMessage (cstr p) [c1, c2] ev)],
                 d\<lparr>checksum_buffer := [c1, c2, NUL], checksum_index := 3,
                   decode_state := WAIT_FOR_START_DELIMITER\<rparr>)"
proof -
  have ev: "ev\<lparr>etype := BB_EVENT_NO_EVENT\<rparr> = ev" using assms(8) by simp
  have nn: "c1 \<noteq> NUL" "c2 \<noteq> NUL" using assms(6,7) by (simp_all add: isxdigit_not_special)
  have cs: "cstr_of [c1, c2, NUL] = Some [c1, c2]"
    using nn by (simp add: cstr_of_def cstr_def)
  show ?thesis
    using assms(1,2,3,4,5,6,7)
    by (simp add: Message_Decode_star Message_Decode_cs0 Message_Decode_cs1 Message_Decode_cr
        Message_Decode_lf[where p = "cstr p" and cs = "[c1, c2]"] ev cs cstr_of_payload_buf
        numeral_eq_Suc)
qed

lemma decode_stream_frame:
  assumes "decode_state d = WAIT_FOR_START_DELIMITER" "list_all payload_char p" "length p \<le> 76"
    "isxdigit c1" "isxdigit c2"
  shows "decode_stream (CHR ''$'' # p @ [CHR ''*'', c1, c2, CR, LF]) ev d =
           Some (replicate (length p + 5) (SUCCESS, ev\<lparr>etype := BB_EVENT_NO_EVENT\<rparr>)
                   @ [finish (Message_ParseMessage (cstr p) [c1, c2] (ev\<lparr>etype := BB_EVENT_NO_EVENT\<rparr>))],
                 d\<lparr>payload_index := int (length p), checksum_index := 3,
                   payload_buffer := payload_buf p, checksum_buffer := [c1, c2, NUL],
                   decode_state := WAIT_FOR_START_DELIMITER\<rparr>)"
proof -
  let ?e = "ev\<lparr>etype := BB_EVENT_NO_EVENT\<rparr>"
  let ?d0 = "d\<lparr>payload_index := 0, checksum_index := 0, payload_buffer := payload_buf [],
         checksum_buffer := [NUL, NUL, NUL], decode_state := RECORDING_PAYLOAD\<rparr>"
  let ?d1 = "?d0\<lparr>payload_buffer := payload_buf ([] @ p), payload_index := int (length ([] @ p))\<rparr>"
  have a: "decode_stream p ?e ?d0 = Some (replicate (length p) (SUCCESS, ?e), ?d1)"
    using assms(2,3) by (intro decode_stream_payload) simp_all
  have b: "decode_stream [CHR ''*'', c1, c2, CR, LF] ?e ?d1 =
           Some (replicate 4 (SUCCESS, ?e) @ [finish (Message_ParseMessage (cstr p) [c1, c2] ?e)],
                 ?d1\<lparr>checksum_buffer := [c1, c2, NUL], checksum_index := 3,
                   decode_state := WAIT_FOR_START_DELIMITER\<rparr>)"
    using assms(3,4,5) by (intro decode_stream_trailer) simp_all
  have c: "(if replicate (length p) (SUCCESS, ?e) = [] then ?e
            else snd (last (replicate (length p) (SUCCESS, ?e)))) = ?e"
    by simp
  show ?thesis
    apply (simp only: decode_stream.simps Message_Decode_start[OF assms(1)] option.case prod.case)
    apply (simp only: decode_stream_append a option.case prod.case c b)
    apply (simp add: numeral_eq_Suc replicate_add replicate_app_Cons_same)
    done
qed

section \<open>Encoding, and parsing what was encoded\<close>

lemma uint16_range: "0 \<le> uint (w :: 16 word)" "uint (w :: 16 word) < 10 ^ Suc 4" "uint w \<le> 2147483647"
    "uint w \<le> 4294967295"
  using uint_bounded[of w] by simp_all

lemma fmt_d_uint: "fmt_d (uint (w :: 16 word)) = fmt_u (uint w)"
  by (simp add: fmt_d_def)

lemma fmt_u16_props:
  "list_all isdigit (fmt_u (uint (w :: 16 word)))" "fmt_u (uint w) \<noteq> []" "length (fmt_u (uint w)) \<le> 5"
  using fmt_u_digits[of "uint w"] length_fmt_u[of "uint w" 4] uint16_range[of w] by simp_all

lemma isdigit_payload_char: "isdigit c \<Longrightarrow> payload_char c" "\<not> isdigit NUL"
  using isdigit_not_special(8)[of NUL] by (auto simp add: payload_char_def isdigit_not_special)

lemma digits_payload: "list_all isdigit ds \<Longrightarrow> list_all payload_char ds \<and> NUL \<notin> set ds"
  by (induction ds) (auto simp: isdigit_payload_char)+

lemma payload_text_chars: "list_all payload_char (payload_text m) \<and> NUL \<notin> set (payload_text m)"
  using digits_payload[OF fmt_u16_props(1)]
  by (cases "mtype m") (simp_all add: payload_text_def fmt_d_uint payload_char_def CR_def NUL_def)

lemma payload_text_length: "length (payload_text m) \<le> 76"
  using fmt_u16_props(3)[of "mparam0 m"] fmt_u16_props(3)[of "mparam1 m"] fmt_u16_props(3)[of "mparam2 m"]
  by (cases "mtype m") (simp_all add: payload_text_def fmt_d_uint)

lemma Message_Encode_frame:
  "mtype m \<noteq> MESSAGE_NONE \<Longrightarrow>
   snd (Message_Encode buf m) =
     CHR ''$'' # payload_text m @ CHR ''*'' # fmt_02X (Message_CalculateChecksum (payload_text m)) @ [CR, LF]"
  using payload_text_length[of m]
  by (simp add: Message_Encode_def snprintf_def MAXP MESSAGE_MAX_LEN_def payload_text_def[symmetric]
      fmt_02X_def Let_def)

lemma ucast_of_int_uint16: "(ucast (ucast (w :: 16 word) :: 32 word) :: 16 word) = w"
  by (rule bit_word_eqI) (auto simp: bit_simps)

lemma conv_uint16: "ucast (conv_u False (uint (w :: 16 word))) = w" "ucast (conv_d False (uint (w :: 16 word))) = w"
  using uint16_range[of w] by (simp_all add: conv_u_def conv_d_def ucast_of_int_uint16)

lemma comma_not_digit: "\<not> isdigit (CHR '','')"
  by (simp add: isdigit_def)

lemma scan_u_uint: "rest = [] \<or> \<not> isdigit (hd rest) \<Longrightarrow>
    scan_u (fmt_u (uint (w :: 16 word)) @ rest) = Some (conv_u False (uint w), rest)"
  by (simp add: scan_u_def scan_num_fmt_u)

lemma scan_d_uint: "rest = [] \<or> \<not> isdigit (hd rest) \<Longrightarrow>
    scan_d (fmt_u (uint (w :: 16 word)) @ rest) = Some (conv_d False (uint w), rest)"
  by (simp add: scan_d_def scan_num_fmt_u)

lemma scan_u_uint_end: "scan_u (fmt_u (uint (w :: 16 word))) = Some (conv_u False (uint w), [])"
  using scan_u_uint[of "[]" w] by simp

lemma scan_d_uint_end: "scan_d (fmt_u (uint (w :: 16 word))) = Some (conv_d False (uint w), [])"
  using scan_d_uint[of "[]" w] by simp

lemma Message_ParseMessage_payload_text:
  assumes "mtype m \<noteq> MESSAGE_NONE"
  shows "Message_ParseMessage (payload_text m) (fmt_02X (Message_CalculateChecksum (payload_text m))) ev
           = (SUCCESS, event_for m ev)"
proof -
  have cs: "\<And>w. length (fmt_02X w) = 2" by (simp add: fmt_02X_def)
  show ?thesis
    using assms
    by (cases "mtype m")
       (simp_all add: Message_ParseMessage_def MESSAGE_CHECKSUM_LEN_def cs sscanf_2X_fmt_02X
          ucast_8_32_8 payload_text_def event_for_def sscanf_3s_def isspace_def
          sscanf_u1_def sscanf_d2_def sscanf_u3_def scan_lit_def fmt_d_uint
          scan_u_uint scan_d_uint scan_u_uint_end scan_d_uint_end comma_not_digit conv_uint16)
qed

section \<open>The decoder on arbitrary input\<close>

lemma tracks_init: "tracks [] decoder_init"
  unfolding tracks_def
  by (rule exI[of _ "[]"], rule exI[of _ NUL], rule exI[of _ NUL])
     (simp add: decoder_init_def payload_buf_def MESSAGE_CHECKSUM_LEN_def numeral_3_eq_3)

lemma tracksI:
  assumes "length p \<le> 76" "payload_buffer d = payload_buf p"
    "0 \<le> payload_index d" "payload_index d \<le> 76" "0 \<le> checksum_index d" "checksum_index d \<le> 3"
    "checksum_buffer d = [c1, c2, NUL]"
    "decode_state d = WAIT_FOR_START_DELIMITER \<or>
         (list_all payload_char p \<and> payload_index d = int (length p) \<and>
          (\<exists>pre.
            (decode_state d = RECORDING_PAYLOAD \<and> checksum_index d = 0 \<and>
               c1 = NUL \<and> c2 = NUL \<and> bs = pre @ CHR ''$'' # p) \<or>
            (decode_state d = RECORDING_CHECKSUM \<and>
               (checksum_index d = 0 \<and> c1 = NUL \<and> c2 = NUL \<and> bs = pre @ CHR ''$'' # p @ [CHR ''*''] \<or>
                checksum_index d = 1 \<and> isxdigit c1 \<and> c2 = NUL \<and> bs = pre @ CHR ''$'' # p @ [CHR ''*'', c1] \<or>
                checksum_index d = 2 \<and> isxdigit c1 \<and> isxdigit c2 \<and>
                   bs = pre @ CHR ''$'' # p @ [CHR ''*'', c1, c2] \<or>
                checksum_index d = 3 \<and> isxdigit c1 \<and> isxdigit c2 \<and>
                   bs = pre @ CHR ''$'' # p @ [CHR ''*'', c1, c2, CR]))))"
  shows "tracks bs d"
  unfolding tracks_def using assms by blast

lemma tracks_step:
  assumes "tracks bs d"
  shows "\<exists>r ev' d'. Message_Decode c ev d = Some (r, ev', d') \<and> tracks (bs @ [c]) d'"
proof -
  from assms obtain p c1 c2 where
    g: "length p \<le> 76" "payload_buffer d = payload_buf p"
       "0 \<le> payload_index d" "payload_index d \<le> 76" "0 \<le> checksum_index d" "checksum_index d \<le> 3"
       "checksum_buffer d = [c1, c2, NUL]"
    and st: "decode_state d = WAIT_FOR_START_DELIMITER \<or>
         (list_all payload_char p \<and> payload_index d = int (length p) \<and>
          (\<exists>pre.
            (decode_state d = RECORDING_PAYLOAD \<and> checksum_index d = 0 \<and>
               c1 = NUL \<and> c2 = NUL \<and> bs = pre @ CHR ''$'' # p) \<or>
            (decode_state d = RECORDING_CHECKSUM \<and>
               (checksum_index d = 0 \<and> c1 = NUL \<and> c2 = NUL \<and> bs = pre @ CHR ''$'' # p @ [CHR ''*''] \<or>
                checksum_index d = 1 \<and> isxdigit c1 \<and> c2 = NUL \<and> bs = pre @ CHR ''$'' # p @ [CHR ''*'', c1] \<or>
                checksum_index d = 2 \<and> isxdigit c1 \<and> isxdigit c2 \<and>
                   bs = pre @ CHR ''$'' # p @ [CHR ''*'', c1, c2] \<or>
                checksum_index d = 3 \<and> isxdigit c1 \<and> isxdigit c2 \<and>
                   bs = pre @ CHR ''$'' # p @ [CHR ''*'', c1, c2, CR]))))"
    unfolding tracks_def by blast
  have failed: "tracks (bs @ [c]) (d\<lparr>decode_state := WAIT_FOR_START_DELIMITER\<rparr>)"
    using g by (intro tracksI[of p _ c1 c2]) simp_all
  show ?thesis
  proof (cases "decode_state d")
    case WAIT_FOR_START_DELIMITER
    show ?thesis
    proof (cases "c = CHR ''$''")
      case True
      have "tracks (bs @ [c]) (d\<lparr>payload_index := 0, checksum_index := 0, payload_buffer := payload_buf [],
         checksum_buffer := [NUL, NUL, NUL], decode_state := RECORDING_PAYLOAD\<rparr>)"
        using True by (intro tracksI[of "[]" _ NUL NUL]) simp_all
      then show ?thesis
        using Message_Decode_start[OF WAIT_FOR_START_DELIMITER, of ev] True by simp
    next
      case False
      have "tracks (bs @ [c]) d"
        using g WAIT_FOR_START_DELIMITER by (intro tracksI[of p _ c1 c2]) simp_all
      then show ?thesis
        using False WAIT_FOR_START_DELIMITER by (simp add: Message_Decode_def)
    qed
  next
    case RECORDING_PAYLOAD
    with st obtain pre where rp: "list_all payload_char p" "payload_index d = int (length p)"
      "checksum_index d = 0" "c1 = NUL" "c2 = NUL" "bs = pre @ CHR ''$'' # p"
      by auto
    have "length p = 76 \<or> length p < 76" using g(1) by arith
    then consider (star) "c = CHR ''*''" | (bad) "c \<noteq> CHR ''*''" "c = CR \<or> c = CHR ''$''"
      | (full) "payload_char c" "length p = 76" | (room) "payload_char c" "length p < 76"
      by (auto simp: payload_char_def)
    then show ?thesis
    proof cases
      case star
      have "tracks (bs @ [c]) (d\<lparr>decode_state := RECORDING_CHECKSUM\<rparr>)"
        using g rp star by (intro tracksI[of p _ c1 c2]) simp_all
      then show ?thesis
        using star Message_Decode_star[OF RECORDING_PAYLOAD, of ev] by simp
    next
      case bad
      then show ?thesis using failed RECORDING_PAYLOAD by (auto simp: Message_Decode_def)
    next
      case full
      then show ?thesis using failed RECORDING_PAYLOAD rp(2)
        by (auto simp: Message_Decode_def payload_char_def MAXP)
    next
      case room
      have "tracks (bs @ [c])
              (d\<lparr>payload_buffer := payload_buf (p @ [c]), payload_index := int (length (p @ [c]))\<rparr>)"
        using g rp room RECORDING_PAYLOAD by (intro tracksI[of "p @ [c]" _ c1 c2]) simp_all
      then show ?thesis
        using Message_Decode_payload_step[OF RECORDING_PAYLOAD room(1) rp(2) room(2) g(2), of ev]
        by simp
    qed
  next
    case RECORDING_CHECKSUM
    with st obtain pre where rc: "list_all payload_char p" "payload_index d = int (length p)"
      "checksum_index d = 0 \<and> c1 = NUL \<and> c2 = NUL \<and> bs = pre @ CHR ''$'' # p @ [CHR ''*''] \<or>
                checksum_index d = 1 \<and> isxdigit c1 \<and> c2 = NUL \<and> bs = pre @ CHR ''$'' # p @ [CHR ''*'', c1] \<or>
                checksum_index d = 2 \<and> isxdigit c1 \<and> isxdigit c2 \<and>
                   bs = pre @ CHR ''$'' # p @ [CHR ''*'', c1, c2] \<or>
                checksum_index d = 3 \<and> isxdigit c1 \<and> isxdigit c2 \<and>
                   bs = pre @ CHR ''$'' # p @ [CHR ''*'', c1, c2, CR]"
      by auto
    from rc(3) consider
        (i0) "checksum_index d = 0" "c1 = NUL" "c2 = NUL" "bs = pre @ CHR ''$'' # p @ [CHR ''*'']"
      | (i1) "checksum_index d = 1" "isxdigit c1" "c2 = NUL" "bs = pre @ CHR ''$'' # p @ [CHR ''*'', c1]"
      | (i2) "checksum_index d = 2" "isxdigit c1" "isxdigit c2" "bs = pre @ CHR ''$'' # p @ [CHR ''*'', c1, c2]"
      | (i3) "checksum_index d = 3" "isxdigit c1" "isxdigit c2" "bs = pre @ CHR ''$'' # p @ [CHR ''*'', c1, c2, CR]"
      by blast
    then show ?thesis
    proof cases
      case i0
      show ?thesis
      proof (cases "isxdigit c")
        case True
        have "tracks (bs @ [c]) (d\<lparr>checksum_buffer := [c, NUL, NUL], checksum_index := 1\<rparr>)"
          using g rc(1,2) i0 True RECORDING_CHECKSUM by (intro tracksI[of p _ c NUL]) simp_all
        then show ?thesis
          using Message_Decode_cs0[OF RECORDING_CHECKSUM i0(1) g(7) True, of ev] i0 by simp
      next
        case False
        then show ?thesis using failed RECORDING_CHECKSUM i0(1)
          by (auto simp: Message_Decode_def MESSAGE_CHECKSUM_LEN_def)
      qed
    next
      case i1
      show ?thesis
      proof (cases "isxdigit c")
        case True
        have "tracks (bs @ [c]) (d\<lparr>checksum_buffer := [c1, c, NUL], checksum_index := 2\<rparr>)"
          using g rc(1,2) i1 True RECORDING_CHECKSUM by (intro tracksI[of p _ c1 c]) simp_all
        then show ?thesis
          using Message_Decode_cs1[OF RECORDING_CHECKSUM i1(1) g(7) True, of ev] by simp
      next
        case False
        then show ?thesis using failed RECORDING_CHECKSUM i1(1)
          by (auto simp: Message_Decode_def MESSAGE_CHECKSUM_LEN_def)
      qed
    next
      case i2
      show ?thesis
      proof (cases "c = CR")
        case True
        have "tracks (bs @ [c]) (d\<lparr>checksum_index := 3\<rparr>)"
          using g rc(1,2) i2 True RECORDING_CHECKSUM by (intro tracksI[of p _ c1 c2]) simp_all
        then show ?thesis
          using Message_Decode_cr[OF RECORDING_CHECKSUM i2(1), of ev] True by simp
      next
        case False
        then show ?thesis using failed RECORDING_CHECKSUM i2(1)
          by (auto simp: Message_Decode_def MESSAGE_CHECKSUM_LEN_def)
      qed
    next
      case i3
      show ?thesis
      proof (cases "c = LF")
        case True
        have nn: "c1 \<noteq> NUL" "c2 \<noteq> NUL" using i3 by (simp_all add: isxdigit_not_special)
        have cs: "cstr_of (checksum_buffer d) = Some [c1, c2]"
          using nn by (simp add: g(7) cstr_of_def cstr_def)
        have pl: "cstr_of (payload_buffer d) = Some (cstr p)"
          using g(1,2) by (simp add: cstr_of_payload_buf)
        show ?thesis
          using Message_Decode_lf[OF RECORDING_CHECKSUM i3(1) pl cs, of ev] True failed by simp
      next
        case False
        then show ?thesis using failed RECORDING_CHECKSUM i3(1)
          by (auto simp: Message_Decode_def MESSAGE_CHECKSUM_LEN_def)
      qed
    qed
  qed
qed

lemma decode_stream_tracks:
  "tracks hist d \<Longrightarrow>
   \<exists>out d'. decode_stream bs ev d = Some (out, d') \<and> length out = length bs \<and> tracks (hist @ bs) d'"
proof (induction bs arbitrary: hist ev d)
  case Nil
  then show ?case by simp
next
  case (Cons c bs)
  from tracks_step[OF Cons.prems, of c ev] obtain r ev' d1 where
    s: "Message_Decode c ev d = Some (r, ev', d1)" and t: "tracks (hist @ [c]) d1"
    by blast
  from Cons.IH[OF t, of ev'] obtain out d' where
    "decode_stream bs ev' d1 = Some (out, d')" "length out = length bs" "tracks ((hist @ [c]) @ bs) d'"
    by blast
  then show ?case using s by simp
qed

lemma reachable_tracks:
  assumes "decode_stream bs ev decoder_init = Some (out, d)"
  shows "tracks bs d"
  using decode_stream_tracks[OF tracks_init, of bs ev] assms by auto

lemma Message_ParseMessage_cases:
  "Message_ParseMessage p cs ev = (STANDARD_ERROR, ev\<lparr>etype := BB_EVENT_ERROR\<rparr>) \<or>
   fst (Message_ParseMessage p cs ev) = SUCCESS \<and>
   etype (snd (Message_ParseMessage p cs ev)) \<noteq> BB_EVENT_ERROR \<and>
   etype (snd (Message_ParseMessage p cs ev)) \<noteq> BB_EVENT_NO_EVENT"
  by (auto simp: Message_ParseMessage_def Let_def split: option.splits prod.splits)

lemma finish_parse: "finish (Message_ParseMessage p cs ev) = Message_ParseMessage p cs ev"
  using Message_ParseMessage_cases[of p cs ev] by (auto simp: finish_def)

lemma length_cstr: "length (cstr p) \<le> length p"
  by (simp add: cstr_def length_takeWhile_le)

lemma Message_Decode_outcome:
  assumes "Message_Decode c ev d = Some (r, ev', d')"
    and "\<not> (decode_state d = RECORDING_CHECKSUM \<and> checksum_index d = 3 \<and> c = LF)"
  shows "(r = STANDARD_ERROR \<and> ev' = ev\<lparr>etype := BB_EVENT_ERROR\<rparr> \<and>
            decode_state d' = WAIT_FOR_START_DELIMITER) \<or>
         (r = SUCCESS \<and> ev' = ev\<lparr>etype := BB_EVENT_NO_EVENT\<rparr>)"
proof (cases "decode_state d")
  case WAIT_FOR_START_DELIMITER
  then show ?thesis using assms(1) by (auto simp: Message_Decode_def Let_def split: if_splits)
next
  case RECORDING_PAYLOAD
  then show ?thesis using assms(1)
    by (auto simp: Message_Decode_def Let_def split: if_splits option.splits)
next
  case RECORDING_CHECKSUM
  then show ?thesis using assms
    by (auto simp: Message_Decode_def Let_def MESSAGE_CHECKSUM_LEN_def split: if_splits option.splits)
qed

lemma Message_Decode_restart:
  "decode_state d = WAIT_FOR_START_DELIMITER \<Longrightarrow>
   Message_Decode (CHR ''$'') ev d =
     Some (SUCCESS, ev\<lparr>etype := BB_EVENT_NO_EVENT\<rparr>,
           d\<lparr>payload_index := 0, checksum_index := 0,
             payload_buffer := replicate (MESSAGE_MAX_PAYLOAD_LEN + 1) NUL,
             checksum_buffer := replicate (MESSAGE_CHECKSUM_LEN + 1) NUL,
             decode_state := RECORDING_PAYLOAD\<rparr>)"
  by (simp add: Message_Decode_def)

text \<open>What a call of \<^verbatim>\<open>Message_Decode\<close> does on a malformation, and on a byte that is
  none, after any received bytes.\<close>

lemma Message_Decode_malformed:
  assumes t: "tracks bs d" and m: "malformation d c ev"
  shows "Message_Decode c ev d =
           Some (STANDARD_ERROR, ev\<lparr>etype := BB_EVENT_ERROR\<rparr>,
                 d\<lparr>decode_state := WAIT_FOR_START_DELIMITER\<rparr>)"
proof -
  from t obtain p c1 c2 where
    g: "length p \<le> 76" "payload_buffer d = payload_buf p" "checksum_buffer d = [c1, c2, NUL]"
       "decode_state d = RECORDING_CHECKSUM \<and> checksum_index d = 3 \<longrightarrow> isxdigit c1 \<and> isxdigit c2"
    unfolding tracks_def by auto
  from m consider "framing_error d c" | "oversized_payload d c" | "bad_checksum_character d c"
    | "parse_failure d c ev" unfolding malformation_def by blast
  then show ?thesis
  proof cases
    case 1
    then show ?thesis
      by (auto simp: framing_error_def Message_Decode_def Let_def MESSAGE_CHECKSUM_LEN_def CR_def LF_def)
  next
    case 2
    then show ?thesis
      by (auto simp: oversized_payload_def payload_char_def Message_Decode_def Let_def)
  next
    case 3
    then show ?thesis
      by (auto simp: bad_checksum_character_def Message_Decode_def Let_def MESSAGE_CHECKSUM_LEN_def)
  next
    case 4
    then have s: "decode_state d = RECORDING_CHECKSUM" "checksum_index d = 3" "c = LF"
      and f: "fst (Message_ParseMessage (cstr (payload_buffer d)) (cstr (checksum_buffer d)) ev) \<noteq> SUCCESS"
      by (auto simp: parse_failure_def)
    have nn: "c1 \<noteq> NUL" "c2 \<noteq> NUL" using g(4) s by (simp_all add: isxdigit_not_special)
    have pl: "cstr_of (payload_buffer d) = Some (cstr (payload_buffer d))"
      using g(1,2) cstr_of_payload_buf[of p] by (simp add: cstr_of_def split: if_splits)
    have cs: "cstr_of (checksum_buffer d) = Some (cstr (checksum_buffer d))"
      by (simp add: g(3) cstr_of_def)
    from f Message_ParseMessage_cases[of "cstr (payload_buffer d)" "cstr (checksum_buffer d)" ev]
    have pm: "Message_ParseMessage (cstr (payload_buffer d)) (cstr (checksum_buffer d)) ev
                = (STANDARD_ERROR, ev\<lparr>etype := BB_EVENT_ERROR\<rparr>)" by blast
    show ?thesis
      using Message_Decode_lf[OF s(1,2) pl cs, of ev] s(3) by (simp add: pm finish_def)
  qed
qed

lemma Message_Decode_wellformed:
  assumes t: "tracks bs d" and m: "\<not> malformation d c ev"
    and r: "Message_Decode c ev d = Some (r, ev', d')"
  shows "r = SUCCESS \<and> etype ev' \<noteq> BB_EVENT_ERROR"
proof (cases "decode_state d = RECORDING_CHECKSUM \<and> checksum_index d = 3 \<and> c = LF")
  case True
  from t obtain p c1 c2 where
    g: "length p \<le> 76" "payload_buffer d = payload_buf p" "checksum_buffer d = [c1, c2, NUL]"
       "decode_state d = RECORDING_CHECKSUM \<and> checksum_index d = 3 \<longrightarrow> isxdigit c1 \<and> isxdigit c2"
    unfolding tracks_def by auto
  have pl: "cstr_of (payload_buffer d) = Some (cstr (payload_buffer d))"
    using g(1,2) cstr_of_payload_buf[of p] by (simp add: cstr_of_def split: if_splits)
  have cs: "cstr_of (checksum_buffer d) = Some (cstr (checksum_buffer d))"
    by (simp add: g(3) cstr_of_def)
  from m True have f: "fst (Message_ParseMessage (cstr (payload_buffer d)) (cstr (checksum_buffer d)) ev) = SUCCESS"
    by (simp add: malformation_def parse_failure_def)
  show ?thesis
    using Message_Decode_lf[of d _ _ ev, OF _ _ pl cs] True r f
      Message_ParseMessage_cases[of "cstr (payload_buffer d)" "cstr (checksum_buffer d)" ev]
    by (auto simp: finish_def)
next
  case False
  from t have ci: "0 \<le> checksum_index d" "checksum_index d \<le> 3" "payload_index d \<le> 76"
    unfolding tracks_def by auto
  from Message_Decode_outcome[OF r False]
  have "r = STANDARD_ERROR \<Longrightarrow> False"
    using m r False ci
    by (cases "decode_state d")
       (auto simp: malformation_def framing_error_def oversized_payload_def bad_checksum_character_def
          payload_char_def Message_Decode_def Let_def MESSAGE_CHECKSUM_LEN_def MAXP
          split: if_splits option.splits)
  then show ?thesis using Message_Decode_outcome[OF r False] by (cases r) auto
qed

lemma Message_Decode_after_stream:
  assumes "decode_stream bs ev_first decoder_init = Some (out, d)"
      and "Message_Decode c ev d = Some (r, ev', d')"
  shows "(r = STANDARD_ERROR \<longleftrightarrow> etype ev' = BB_EVENT_ERROR) \<and>
         (r = STANDARD_ERROR \<longrightarrow>
            decode_state d' = WAIT_FOR_START_DELIMITER \<and>
            Message_Decode (CHR ''$'') ev' d' =
              Some (SUCCESS, ev'\<lparr>etype := BB_EVENT_NO_EVENT\<rparr>,
                    d'\<lparr>payload_index := 0, checksum_index := 0,
                      payload_buffer := replicate (MESSAGE_MAX_PAYLOAD_LEN + 1) NUL,
                      checksum_buffer := replicate (MESSAGE_CHECKSUM_LEN + 1) NUL,
                      decode_state := RECORDING_PAYLOAD\<rparr>)) \<and>
         (if decode_state d = RECORDING_CHECKSUM \<and> checksum_index d = 3 \<and> c = LF
          then \<exists>pre p c1 c2.
                 bs @ [c] = pre @ frame p c1 c2 \<and> list_all payload_char p \<and>
                 length p \<le> MESSAGE_MAX_PAYLOAD_LEN \<and> isxdigit c1 \<and> isxdigit c2 \<and>
                 (r, ev') = Message_ParseMessage (cstr p) [c1, c2] ev
          else ev' = ev\<lparr>etype := BB_EVENT_NO_EVENT\<rparr> \<or> ev' = ev\<lparr>etype := BB_EVENT_ERROR\<rparr>)"
proof -
  have t: "tracks bs d" by (rule reachable_tracks[OF assms(1)])
  show ?thesis
  proof (cases "decode_state d = RECORDING_CHECKSUM \<and> checksum_index d = 3 \<and> c = LF")
    case True
    with t obtain pre p c1 c2 where
      f: "length p \<le> 76" "payload_buffer d = payload_buf p" "checksum_buffer d = [c1, c2, NUL]"
         "list_all payload_char p" "isxdigit c1" "isxdigit c2"
         "bs = pre @ CHR ''$'' # p @ [CHR ''*'', c1, c2, CR]"
      unfolding tracks_def by auto
    have nn: "c1 \<noteq> NUL" "c2 \<noteq> NUL" using f(5,6) by (simp_all add: isxdigit_not_special)
    have cs: "cstr_of (checksum_buffer d) = Some [c1, c2]"
      using nn by (simp add: f(3) cstr_of_def cstr_def)
    have pl: "cstr_of (payload_buffer d) = Some (cstr p)"
      using f(1,2) by (simp add: cstr_of_payload_buf)
    have res: "(r, ev') = Message_ParseMessage (cstr p) [c1, c2] ev"
      and d': "d' = d\<lparr>decode_state := WAIT_FOR_START_DELIMITER\<rparr>"
      using Message_Decode_lf[of d "cstr p" "[c1, c2]" ev] True pl cs assms(2)
      by (auto simp add: finish_parse prod_eq_iff)
    have fr: "bs @ [c] = pre @ frame p c1 c2"
      using True f(7) by (simp add: frame_def)
    have "(r = STANDARD_ERROR \<longleftrightarrow> etype ev' = BB_EVENT_ERROR)"
      using Message_ParseMessage_cases[of "cstr p" "[c1, c2]" ev] res[symmetric] by auto
    moreover have "decode_state d' = WAIT_FOR_START_DELIMITER" by (simp add: d')
    moreover have "\<exists>pre p c1 c2.
                 bs @ [c] = pre @ frame p c1 c2 \<and> list_all payload_char p \<and>
                 length p \<le> MESSAGE_MAX_PAYLOAD_LEN \<and> isxdigit c1 \<and> isxdigit c2 \<and>
                 (r, ev') = Message_ParseMessage (cstr p) [c1, c2] ev"
      using fr f(1,4,5,6) res by (auto simp: MAXP)
    ultimately show ?thesis
      using True Message_Decode_restart[of d' ev'] by simp
  next
    case False
    from Message_Decode_outcome[OF assms(2) False]
    show ?thesis using False Message_Decode_restart[of d' ev'] by auto
  qed
qed

section \<open>What the parser accepts\<close>

lemma list_all_takeWhile: "list_all P (takeWhile P xs)"
  by (induction xs) auto

lemma scan_sign_cases:
  "scan_sign s = (neg, s2) \<Longrightarrow> s = s2 \<or> s = CHR ''+'' # s2 \<or> s = CHR ''-'' # s2"
  by (cases s) (auto simp: scan_sign_def split: if_splits)

lemma scan_num_SomeD:
  assumes "scan_num conv s = Some (v, r)"
  shows "\<exists>f. field_text f \<and> s = f @ r"
proof -
  obtain neg s2 where sg: "scan_sign (dropWhile isspace s) = (neg, s2)"
    by (cases "scan_sign (dropWhile isspace s)") auto
  from assms sg have ds: "takeWhile isdigit s2 \<noteq> []" and r: "r = dropWhile isdigit s2"
    by (auto simp: scan_num_def Let_def split: if_splits)
  let ?ws = "takeWhile isspace s" and ?ds = "takeWhile isdigit s2"
  from scan_sign_cases[OF sg] obtain sg' where
    s1: "dropWhile isspace s = sg' @ s2" and sg': "sg' = [] \<or> sg' = ''+'' \<or> sg' = ''-''"
    by auto
  have "s = ?ws @ dropWhile isspace s" by simp
  also have "\<dots> = (?ws @ sg' @ ?ds) @ r" by (simp add: s1 r)
  finally have "s = (?ws @ sg' @ ?ds) @ r" .
  moreover have "field_text (?ws @ sg' @ ?ds)"
    unfolding field_text_def using sg' ds list_all_takeWhile[of isspace s] list_all_takeWhile[of isdigit s2]
    by blast
  ultimately show ?thesis by blast
qed

lemma scan_lit_SomeD: "scan_lit lit s = Some r \<Longrightarrow> s = lit @ r"
  by (auto simp: scan_lit_def split: if_splits) (metis append_take_drop_id)

lemma sscanf_u1_SomeD:
  assumes "sscanf_u1 tag p = Some v"
  shows "\<exists>f rest. field_text f \<and> p = tag @ f @ rest"
proof -
  from assms obtain r0 v0 r1 where "scan_lit tag p = Some r0" "scan_u r0 = Some (v0, r1)"
    by (auto simp: sscanf_u1_def split: option.splits)
  then show ?thesis
    using scan_lit_SomeD[of tag p r0] scan_num_SomeD[of conv_u r0 v0 r1]
    by (auto simp: scan_u_def)
qed

lemma sscanf_d2_SomeD:
  assumes "sscanf_d2 tag p = Some v"
  shows "\<exists>f1 f2 rest. field_text f1 \<and> field_text f2 \<and> p = tag @ f1 @ '','' @ f2 @ rest"
proof -
  from assms obtain r0 v0 r1 r2 v1 r3 where
    "scan_lit tag p = Some r0" "scan_d r0 = Some (v0, r1)" "scan_lit '','' r1 = Some r2"
    "scan_d r2 = Some (v1, r3)"
    by (auto simp: sscanf_d2_def split: option.splits)
  then show ?thesis
    using scan_lit_SomeD[of tag p r0] scan_num_SomeD[of conv_d r0 v0 r1]
      scan_lit_SomeD[of "'',''" r1 r2] scan_num_SomeD[of conv_d r2 v1 r3]
    by (auto simp: scan_d_def)
qed

lemma sscanf_u3_SomeD:
  assumes "sscanf_u3 tag p = Some v"
  shows "\<exists>f1 f2 f3 rest. field_text f1 \<and> field_text f2 \<and> field_text f3 \<and>
           p = tag @ f1 @ '','' @ f2 @ '','' @ f3 @ rest"
proof -
  from assms obtain r0 v0 r1 r2 v1 r3 r4 v2 r5 where
    "scan_lit tag p = Some r0" "scan_u r0 = Some (v0, r1)" "scan_lit '','' r1 = Some r2"
    "scan_u r2 = Some (v1, r3)" "scan_lit '','' r3 = Some r4" "scan_u r4 = Some (v2, r5)"
    by (auto simp: sscanf_u3_def split: option.splits)
  then show ?thesis
    using scan_lit_SomeD[of tag p r0] scan_num_SomeD[of conv_u r0 v0 r1]
      scan_lit_SomeD[of "'',''" r1 r2] scan_num_SomeD[of conv_u r2 v1 r3]
      scan_lit_SomeD[of "'',''" r3 r4] scan_num_SomeD[of conv_u r4 v2 r5]
    by (auto simp: scan_u_def)
qed

lemma Message_ParseMessage_SUCCESS_D:
  assumes "fst (Message_ParseMessage p cs ev) = SUCCESS"
  shows "checksum_matches cs p \<and>
         (sscanf_u1 ''CHA,'' p \<noteq> None \<or> sscanf_u1 ''ACC,'' p \<noteq> None \<or> sscanf_u1 ''REV,'' p \<noteq> None \<or>
          sscanf_d2 ''SHO,'' p \<noteq> None \<or> sscanf_u3 ''RES,'' p \<noteq> None)"
  using assms
  by (auto simp: Message_ParseMessage_def checksum_matches_def Let_def split: option.splits if_splits)

lemma dropWhile_all: "list_all P ws \<Longrightarrow> dropWhile P (ws @ xs) = dropWhile P xs"
  by (induction ws) auto

lemma takeWhile_all: "list_all P ws \<Longrightarrow> takeWhile P (ws @ xs) = ws @ takeWhile P xs"
  by (induction ws) auto

lemma scan_num_field:
  assumes "field_text f"
  shows "\<exists>v r. scan_num conv (f @ rest) = Some (v, r) \<and> (rest = [] \<or> \<not> isdigit (hd rest) \<longrightarrow> r = rest)"
proof -
  from assms obtain ws sg ds where f: "f = ws @ sg @ ds" and ws: "list_all isspace ws"
    and sg: "sg = [] \<or> sg = ''+'' \<or> sg = ''-''" and ds: "ds \<noteq> []" "list_all isdigit ds"
    unfolding field_text_def by blast
  from ds obtain d ds' where dd: "ds = d # ds'" "isdigit d" by (cases ds) auto
  have nsp: "\<not> isspace (CHR ''+'')" "\<not> isspace (CHR ''-'')" by (simp_all add: isspace_def)
  have "dropWhile isspace (sg @ ds @ rest) = sg @ ds @ rest"
    using sg dd nsp by (auto simp: isdigit_not_special)
  then have a: "dropWhile isspace (f @ rest) = sg @ ds @ rest"
    using dropWhile_all[OF ws, of "sg @ ds @ rest"] by (simp add: f)
  have b: "snd (scan_sign (sg @ ds @ rest)) = ds @ rest"
    using sg dd by (auto simp: scan_sign_def isdigit_not_special)
  have c: "takeWhile isdigit (ds @ rest) \<noteq> []"
    using dd by simp
  have d: "dropWhile isdigit (ds @ rest) = dropWhile isdigit rest"
    by (rule dropWhile_all[OF ds(2)])
  have e: "rest = [] \<or> \<not> isdigit (hd rest) \<longrightarrow> dropWhile isdigit rest = rest"
    by (cases rest) auto
  show ?thesis
    using a b c d e
    by (cases "scan_sign (sg @ ds @ rest)") (auto simp: scan_num_def Let_def)
qed

lemma tag_scans:
  "sscanf_3s (''CHA,'' @ r) = Some ''CHA''" "sscanf_3s (''ACC,'' @ r) = Some ''ACC''"
  "sscanf_3s (''REV,'' @ r) = Some ''REV''" "sscanf_3s (''SHO,'' @ r) = Some ''SHO''"
  "sscanf_3s (''RES,'' @ r) = Some ''RES''"
  by (simp_all add: sscanf_3s_def isspace_def)

lemma sscanf_u1_field:
  "field_text f \<Longrightarrow> \<exists>v. sscanf_u1 tag (tag @ f @ rest) = Some v"
  using scan_num_field[of f conv_u rest]
  by (auto simp: sscanf_u1_def scan_lit_def scan_u_def)

lemma sscanf_d2_field:
  assumes "field_text f1" "field_text f2"
  shows "\<exists>v. sscanf_d2 tag (tag @ f1 @ '','' @ f2 @ rest) = Some v"
proof -
  from scan_num_field[OF assms(1), of conv_d "'','' @ f2 @ rest"] obtain v1 where
    "scan_d (f1 @ '','' @ f2 @ rest) = Some (v1, '','' @ f2 @ rest)"
    by (auto simp: scan_d_def comma_not_digit)
  moreover from scan_num_field[OF assms(2), of conv_d rest] obtain v2 r where
    "scan_d (f2 @ rest) = Some (v2, r)"
    by (auto simp: scan_d_def)
  ultimately show ?thesis
    by (simp add: sscanf_d2_def scan_lit_def)
qed

lemma sscanf_u3_field:
  assumes "field_text f1" "field_text f2" "field_text f3"
  shows "\<exists>v. sscanf_u3 tag (tag @ f1 @ '','' @ f2 @ '','' @ f3 @ rest) = Some v"
proof -
  from scan_num_field[OF assms(1), of conv_u "'','' @ f2 @ '','' @ f3 @ rest"] obtain v1 where
    "scan_u (f1 @ '','' @ f2 @ '','' @ f3 @ rest) = Some (v1, '','' @ f2 @ '','' @ f3 @ rest)"
    by (auto simp: scan_u_def comma_not_digit)
  moreover from scan_num_field[OF assms(2), of conv_u "'','' @ f3 @ rest"] obtain v2 where
    "scan_u (f2 @ '','' @ f3 @ rest) = Some (v2, '','' @ f3 @ rest)"
    by (auto simp: scan_u_def comma_not_digit)
  moreover from scan_num_field[OF assms(3), of conv_u rest] obtain v3 r where
    "scan_u (f3 @ rest) = Some (v3, r)"
    by (auto simp: scan_u_def)
  ultimately show ?thesis
    by (simp add: sscanf_u3_def scan_lit_def)
qed

lemma Message_ParseMessage_accepts:
  assumes "checksum_matches cs p" "accepted_payload p"
  shows "fst (Message_ParseMessage p cs ev) = SUCCESS"
proof -
  from assms(1) obtain v where cs: "length cs = MESSAGE_CHECKSUM_LEN" "sscanf_2X cs = Some v"
    "Message_CalculateChecksum p = ucast v"
    by (auto simp: checksum_matches_def split: option.splits)
  from assms(2) consider
      (cha) f rest where "field_text f" "p = ''CHA,'' @ f @ rest"
    | (acc) f rest where "field_text f" "p = ''ACC,'' @ f @ rest"
    | (rev) f rest where "field_text f" "p = ''REV,'' @ f @ rest"
    | (sho) f1 f2 rest where "field_text f1" "field_text f2" "p = ''SHO,'' @ f1 @ '','' @ f2 @ rest"
    | (res) f1 f2 f3 rest where "field_text f1" "field_text f2" "field_text f3"
        "p = ''RES,'' @ f1 @ '','' @ f2 @ '','' @ f3 @ rest"
    unfolding accepted_payload_def by blast
  then show ?thesis
  proof cases
    case cha
    from sscanf_u1_field[OF cha(1), of "''CHA,''" rest] obtain w where
      "sscanf_u1 ''CHA,'' p = Some w" by (auto simp: cha(2))
    then show ?thesis
      using cs tag_scans(1)[of "f @ rest"]
      by (simp add: Message_ParseMessage_def cha(2))
  next
    case acc
    from sscanf_u1_field[OF acc(1), of "''ACC,''" rest] obtain w where
      "sscanf_u1 ''ACC,'' p = Some w" by (auto simp: acc(2))
    then show ?thesis
      using cs tag_scans(2)[of "f @ rest"]
      by (simp add: Message_ParseMessage_def acc(2))
  next
    case rev
    from sscanf_u1_field[OF rev(1), of "''REV,''" rest] obtain w where
      "sscanf_u1 ''REV,'' p = Some w" by (auto simp: rev(2))
    then show ?thesis
      using cs tag_scans(3)[of "f @ rest"]
      by (simp add: Message_ParseMessage_def rev(2))
  next
    case sho
    from sscanf_d2_field[OF sho(1,2), of "''SHO,''" rest] obtain w where
      "sscanf_d2 ''SHO,'' p = Some w" by (auto simp: sho(3))
    then show ?thesis
      using cs tag_scans(4)[of "f1 @ '','' @ f2 @ rest"]
      by (cases w) (simp add: Message_ParseMessage_def sho(3))
  next
    case res
    from sscanf_u3_field[OF res(1,2,3), of "''RES,''" rest] obtain w where
      "sscanf_u3 ''RES,'' p = Some w" by (auto simp: res(4))
    then show ?thesis
      using cs tag_scans(5)[of "f1 @ '','' @ f2 @ '','' @ f3 @ rest"]
      by (cases w) (simp add: Message_ParseMessage_def res(4))
  qed
qed

text \<open>
  The payloads and checksum strings on which \<^verbatim>\<open>Message_ParseMessage\<close>, as it is written,
  succeeds: the checksum string has two characters from which \<^verbatim>\<open>%2X\<close> reads the payload's
  checksum, and the payload begins with a tag, a comma and the tag's number of decimal
  fields, each after optional white space and one optional sign.  What follows the last
  field is not looked at.
\<close>

lemma Message_ParseMessage_accepts_exactly:
  "(fst (Message_ParseMessage p cs ev) = SUCCESS \<longleftrightarrow> checksum_matches cs p \<and> accepted_payload p) \<and>
   (etype (snd (Message_ParseMessage p cs ev)) \<noteq> BB_EVENT_ERROR
      \<longleftrightarrow> fst (Message_ParseMessage p cs ev) = SUCCESS)"
proof -
  have "accepted_payload p" if s: "fst (Message_ParseMessage p cs ev) = SUCCESS"
  proof -
    from Message_ParseMessage_SUCCESS_D[OF s]
    consider "sscanf_u1 ''CHA,'' p \<noteq> None" | "sscanf_u1 ''ACC,'' p \<noteq> None"
      | "sscanf_u1 ''REV,'' p \<noteq> None" | "sscanf_d2 ''SHO,'' p \<noteq> None" | "sscanf_u3 ''RES,'' p \<noteq> None"
      by blast
    then show ?thesis
    proof cases
      case 1
      then show ?thesis using sscanf_u1_SomeD[of "''CHA,''" p] unfolding accepted_payload_def by blast
    next
      case 2
      then show ?thesis using sscanf_u1_SomeD[of "''ACC,''" p] unfolding accepted_payload_def by blast
    next
      case 3
      then show ?thesis using sscanf_u1_SomeD[of "''REV,''" p] unfolding accepted_payload_def by blast
    next
      case 4
      then show ?thesis using sscanf_d2_SomeD[of "''SHO,''" p] unfolding accepted_payload_def by blast
    next
      case 5
      then show ?thesis using sscanf_u3_SomeD[of "''RES,''" p] unfolding accepted_payload_def by blast
    qed
  qed
  then have "fst (Message_ParseMessage p cs ev) = SUCCESS \<longleftrightarrow> checksum_matches cs p \<and> accepted_payload p"
    using Message_ParseMessage_SUCCESS_D[of p cs ev] Message_ParseMessage_accepts[of cs p ev] by blast
  moreover have "etype (snd (Message_ParseMessage p cs ev)) \<noteq> BB_EVENT_ERROR
      \<longleftrightarrow> fst (Message_ParseMessage p cs ev) = SUCCESS"
    using Message_ParseMessage_cases[of p cs ev] by auto
  ultimately show ?thesis by blast
qed

section \<open>The claims about the message codec\<close>

text \<open>
  Claim C3.  For every message whose type is not \<^verbatim>\<open>MESSAGE_NONE\<close>, the bytes that
  \<^verbatim>\<open>Message_Encode\<close> produces, fed one at a time to \<^verbatim>\<open>Message_Decode\<close> from a decoder
  that waits for the start delimiter, give \<^verbatim>\<open>BB_EVENT_NO_EVENT\<close> on every byte but the
  last, and on the last byte the event of the message's type with the parameters of the
  message's template.  Every call returns \<^verbatim>\<open>SUCCESS\<close>, and the decoder waits for the
  start delimiter again.
\<close>

theorem C3_encode_decode_roundtrip:
  assumes "mtype m \<noteq> MESSAGE_NONE" and "decode_state d = WAIT_FOR_START_DELIMITER"
  shows "\<exists>d'. decode_stream (snd (Message_Encode buf m)) ev d =
                 Some (replicate (length (snd (Message_Encode buf m)) - 1)
                         (SUCCESS, ev\<lparr>etype := BB_EVENT_NO_EVENT\<rparr>)
                       @ [(SUCCESS, event_for m ev)], d') \<and>
              decode_state d' = WAIT_FOR_START_DELIMITER"
proof -
  let ?p = "payload_text m"
  let ?w = "Message_CalculateChecksum ?p"
  let ?c1 = "digit_char (uint ?w div 16)" and ?c2 = "digit_char (uint ?w mod 16)"
  have enc: "snd (Message_Encode buf m) = CHR ''$'' # ?p @ [CHR ''*'', ?c1, ?c2, CR, LF]"
    using Message_Encode_frame[OF assms(1), of buf] by (simp add: fmt_02X_def)
  have hex: "isxdigit ?c1" "isxdigit ?c2"
    using uint_div16[of ?w] by (simp_all add: isxdigit_digit_char)
  have pc: "list_all payload_char ?p" "cstr ?p = ?p" "length ?p \<le> 76"
    using payload_text_chars[of m] payload_text_length[of m]
    by (auto simp: cstr_def)
  have parse: "Message_ParseMessage ?p [?c1, ?c2] (ev\<lparr>etype := BB_EVENT_NO_EVENT\<rparr>) = (SUCCESS, event_for m ev)"
    using Message_ParseMessage_payload_text[OF assms(1), of "ev\<lparr>etype := BB_EVENT_NO_EVENT\<rparr>"] assms(1)
    by (cases "mtype m") (simp_all add: fmt_02X_def event_for_def)
  have fin: "finish (SUCCESS, event_for m ev) = (SUCCESS, event_for m ev)"
    by (simp add: finish_def)
  have len: "length (snd (Message_Encode buf m)) - 1 = length ?p + 5"
    by (simp add: enc)
  note fr = decode_stream_frame[OF assms(2) pc(1) pc(3) hex, of ev, folded enc, unfolded pc(2) parse fin]
  show ?thesis
    unfolding len by (rule exI, rule conjI, rule fr) simp
qed

theorem C3_encode_decode_roundtrip_witness:
  "mtype \<lparr>mtype = MESSAGE_SHO, mparam0 = 2, mparam1 = 9, mparam2 = 0\<rparr> \<noteq> MESSAGE_NONE \<and>
   decode_state decoder_init = WAIT_FOR_START_DELIMITER \<and>
   snd (Message_Encode [] \<lparr>mtype = MESSAGE_SHO, mparam0 = 2, mparam1 = 9, mparam2 = 0\<rparr>)
     = ''$SHO,2,9*5F'' @ [CR, LF] \<and>
   (\<exists>d'. decode_stream (''$SHO,2,9*5F'' @ [CR, LF]) ev0 decoder_init =
           Some (replicate 12 (SUCCESS, ev0)
                 @ [(SUCCESS, \<lparr>etype = BB_EVENT_SHO_RECEIVED, eparam0 = 2, eparam1 = 9, eparam2 = 0\<rparr>)], d') \<and>
          decode_state d' = WAIT_FOR_START_DELIMITER)"
proof -
  let ?m = "\<lparr>mtype = MESSAGE_SHO, mparam0 = 2, mparam1 = 9, mparam2 = 0\<rparr>"
  have h1: "mtype ?m \<noteq> MESSAGE_NONE" by simp
  have h2: "decode_state decoder_init = WAIT_FOR_START_DELIMITER" by (simp add: decoder_init_def)
  have enc: "snd (Message_Encode [] ?m) = ''$SHO,2,9*5F'' @ [CR, LF]" by code_simp
  have a: "length (''$SHO,2,9*5F'' @ [CR, LF]) - 1 = 12" by simp
  have b: "ev0\<lparr>etype := BB_EVENT_NO_EVENT\<rparr> = ev0" by (simp add: ev0_def)
  have c: "event_for ?m ev0 = \<lparr>etype = BB_EVENT_SHO_RECEIVED, eparam0 = 2, eparam1 = 9, eparam2 = 0\<rparr>"
    by (simp add: event_for_def ev0_def)
  note r = C3_encode_decode_roundtrip[OF h1 h2, of "[]" ev0, unfolded enc a b c]
  from r h1 h2 enc show ?thesis by blast
qed

text \<open>
  Claim C4.  After any received bytes, a call of \<^verbatim>\<open>Message_Decode\<close> returns.  If its byte
  is a malformation (a framing error, an oversized payload, a bad checksum character or a
  parse failure), the call returns \<^verbatim>\<open>STANDARD_ERROR\<close>, the only change to the event is
  that its type becomes \<^verbatim>\<open>BB_EVENT_ERROR\<close>, and the only change to the decoder is that it
  waits for the start delimiter.  If the byte is no malformation, the call returns
  \<^verbatim>\<open>SUCCESS\<close> and the event is not an error.  So \<^verbatim>\<open>STANDARD_ERROR\<close> is returned exactly
  when \<^verbatim>\<open>BB_EVENT_ERROR\<close> is reported, and after it the next start delimiter begins a frame
  with cleared buffers.  The call that reaches \<^verbatim>\<open>Message_ParseMessage\<close> is the one that
  receives the line feed after the carriage return: the bytes received then end with a
  whole frame, and the parser is given that frame's payload (as the C string it is: up to
  its first NUL byte, if it has one) and its two checksum characters.  Every other call
  sets the event's type to \<^verbatim>\<open>BB_EVENT_NO_EVENT\<close> or \<^verbatim>\<open>BB_EVENT_ERROR\<close> and nothing else.
\<close>

theorem C4_errors_resynchronise:
  assumes "decode_stream bs ev_first decoder_init = Some (out, d)"
  shows "\<exists>r ev' d'.
         Message_Decode c ev d = Some (r, ev', d') \<and>
         (malformation d c ev \<longrightarrow>
            r = STANDARD_ERROR \<and> ev' = ev\<lparr>etype := BB_EVENT_ERROR\<rparr> \<and>
            d' = d\<lparr>decode_state := WAIT_FOR_START_DELIMITER\<rparr>) \<and>
         (\<not> malformation d c ev \<longrightarrow> r = SUCCESS \<and> etype ev' \<noteq> BB_EVENT_ERROR) \<and>
         (r = STANDARD_ERROR \<longleftrightarrow> etype ev' = BB_EVENT_ERROR) \<and>
         (r = STANDARD_ERROR \<longrightarrow>
            decode_state d' = WAIT_FOR_START_DELIMITER \<and>
            Message_Decode (CHR ''$'') ev' d' =
              Some (SUCCESS, ev'\<lparr>etype := BB_EVENT_NO_EVENT\<rparr>,
                    d'\<lparr>payload_index := 0, checksum_index := 0,
                      payload_buffer := replicate (MESSAGE_MAX_PAYLOAD_LEN + 1) NUL,
                      checksum_buffer := replicate (MESSAGE_CHECKSUM_LEN + 1) NUL,
                      decode_state := RECORDING_PAYLOAD\<rparr>)) \<and>
         (if decode_state d = RECORDING_CHECKSUM \<and> checksum_index d = 3 \<and> c = LF
          then \<exists>pre p c1 c2.
                 bs @ [c] = pre @ frame p c1 c2 \<and> list_all payload_char p \<and>
                 length p \<le> MESSAGE_MAX_PAYLOAD_LEN \<and> isxdigit c1 \<and> isxdigit c2 \<and>
                 (r, ev') = Message_ParseMessage (cstr p) [c1, c2] ev
          else ev' = ev\<lparr>etype := BB_EVENT_NO_EVENT\<rparr> \<or> ev' = ev\<lparr>etype := BB_EVENT_ERROR\<rparr>)"
proof -
  have t: "tracks bs d" by (rule reachable_tracks[OF assms])
  from tracks_step[OF t, of c ev] obtain r ev' d' where
    s: "Message_Decode c ev d = Some (r, ev', d')" by blast
  have "malformation d c ev \<longrightarrow>
          r = STANDARD_ERROR \<and> ev' = ev\<lparr>etype := BB_EVENT_ERROR\<rparr> \<and>
          d' = d\<lparr>decode_state := WAIT_FOR_START_DELIMITER\<rparr>"
    using Message_Decode_malformed[OF t, of c ev] s by simp
  moreover have "\<not> malformation d c ev \<longrightarrow> r = SUCCESS \<and> etype ev' \<noteq> BB_EVENT_ERROR"
    using Message_Decode_wellformed[OF t _ s] by blast
  moreover note Message_Decode_after_stream[OF assms s]
  ultimately show ?thesis using s by blast
qed

text \<open>One byte sequence for each malformation: a start delimiter inside the payload, a
  77th payload byte, a letter that is no hexadecimal digit in the checksum, a line feed
  where the carriage return is due, and a frame whose checksum does not match.\<close>

theorem C4_errors_resynchronise_witness:
  "(decode_stream ''$SH'' ev0 decoder_init =
     Some (replicate 3 (SUCCESS, ev0),
       \<lparr>decode_state = RECORDING_PAYLOAD, payload_buffer = payload_buf ''SH'',
        checksum_buffer = [NUL, NUL, NUL], payload_index = 2, checksum_index = 0\<rparr>) \<and>
   framing_error
       \<lparr>decode_state = RECORDING_PAYLOAD, payload_buffer = payload_buf ''SH'',
        checksum_buffer = [NUL, NUL, NUL], payload_index = 2, checksum_index = 0\<rparr> (CHR ''$'') \<and>
   Message_Decode (CHR ''$'') ev0
       \<lparr>decode_state = RECORDING_PAYLOAD, payload_buffer = payload_buf ''SH'',
        checksum_buffer = [NUL, NUL, NUL], payload_index = 2, checksum_index = 0\<rparr> =
     Some (STANDARD_ERROR, ev0\<lparr>etype := BB_EVENT_ERROR\<rparr>,
       \<lparr>decode_state = RECORDING_PAYLOAD, payload_buffer = payload_buf ''SH'',
        checksum_buffer = [NUL, NUL, NUL], payload_index = 2, checksum_index = 0\<rparr>\<lparr>decode_state := WAIT_FOR_START_DELIMITER\<rparr>)) \<and>
  (decode_stream (CHR ''$'' # replicate 76 (CHR ''A'')) ev0 decoder_init =
     Some (replicate 77 (SUCCESS, ev0),
       \<lparr>decode_state = RECORDING_PAYLOAD, payload_buffer = payload_buf (replicate 76 (CHR ''A'')),
        checksum_buffer = [NUL, NUL, NUL], payload_index = 76, checksum_index = 0\<rparr>) \<and>
   oversized_payload
       \<lparr>decode_state = RECORDING_PAYLOAD, payload_buffer = payload_buf (replicate 76 (CHR ''A'')),
        checksum_buffer = [NUL, NUL, NUL], payload_index = 76, checksum_index = 0\<rparr> (CHR ''A'') \<and>
   Message_Decode (CHR ''A'') ev0
       \<lparr>decode_state = RECORDING_PAYLOAD, payload_buffer = payload_buf (replicate 76 (CHR ''A'')),
        checksum_buffer = [NUL, NUL, NUL], payload_index = 76, checksum_index = 0\<rparr> =
     Some (STANDARD_ERROR, ev0\<lparr>etype := BB_EVENT_ERROR\<rparr>,
       \<lparr>decode_state = RECORDING_PAYLOAD, payload_buffer = payload_buf (replicate 76 (CHR ''A'')),
        checksum_buffer = [NUL, NUL, NUL], payload_index = 76, checksum_index = 0\<rparr>\<lparr>decode_state := WAIT_FOR_START_DELIMITER\<rparr>)) \<and>
  (decode_stream ''$SHO,2,9*5'' ev0 decoder_init =
     Some (replicate 10 (SUCCESS, ev0),
       \<lparr>decode_state = RECORDING_CHECKSUM, payload_buffer = payload_buf ''SHO,2,9'',
        checksum_buffer = ''5'' @ [NUL, NUL], payload_index = 7, checksum_index = 1\<rparr>) \<and>
   bad_checksum_character
       \<lparr>decode_state = RECORDING_CHECKSUM, payload_buffer = payload_buf ''SHO,2,9'',
        checksum_buffer = ''5'' @ [NUL, NUL], payload_index = 7, checksum_index = 1\<rparr> (CHR ''G'') \<and>
   Message_Decode (CHR ''G'') ev0
       \<lparr>decode_state = RECORDING_CHECKSUM, payload_buffer = payload_buf ''SHO,2,9'',
        checksum_buffer = ''5'' @ [NUL, NUL], payload_index = 7, checksum_index = 1\<rparr> =
     Some (STANDARD_ERROR, ev0\<lparr>etype := BB_EVENT_ERROR\<rparr>,
       \<lparr>decode_state = RECORDING_CHECKSUM, payload_buffer = payload_buf ''SHO,2,9'',
        checksum_buffer = ''5'' @ [NUL, NUL], payload_index = 7, checksum_index = 1\<rparr>\<lparr>decode_state := WAIT_FOR_START_DELIMITER\<rparr>)) \<and>
  (decode_stream ''$SHO,2,9*5F'' ev0 decoder_init =
     Some (replicate 11 (SUCCESS, ev0),
       \<lparr>decode_state = RECORDING_CHECKSUM, payload_buffer = payload_buf ''SHO,2,9'',
        checksum_buffer = ''5F'' @ [NUL], payload_index = 7, checksum_index = 2\<rparr>) \<and>
   framing_error
       \<lparr>decode_state = RECORDING_CHECKSUM, payload_buffer = payload_buf ''SHO,2,9'',
        checksum_buffer = ''5F'' @ [NUL], payload_index = 7, checksum_index = 2\<rparr> LF \<and>
   Message_Decode LF ev0
       \<lparr>decode_state = RECORDING_CHECKSUM, payload_buffer = payload_buf ''SHO,2,9'',
        checksum_buffer = ''5F'' @ [NUL], payload_index = 7, checksum_index = 2\<rparr> =
     Some (STANDARD_ERROR, ev0\<lparr>etype := BB_EVENT_ERROR\<rparr>,
       \<lparr>decode_state = RECORDING_CHECKSUM, payload_buffer = payload_buf ''SHO,2,9'',
        checksum_buffer = ''5F'' @ [NUL], payload_index = 7, checksum_index = 2\<rparr>\<lparr>decode_state := WAIT_FOR_START_DELIMITER\<rparr>)) \<and>
  (decode_stream (''$SHO,2,9*5E'' @ [CR]) ev0 decoder_init =
     Some (replicate 12 (SUCCESS, ev0),
       \<lparr>decode_state = RECORDING_CHECKSUM, payload_buffer = payload_buf ''SHO,2,9'',
        checksum_buffer = ''5E'' @ [NUL], payload_index = 7, checksum_index = 3\<rparr>) \<and>
   parse_failure
       \<lparr>decode_state = RECORDING_CHECKSUM, payload_buffer = payload_buf ''SHO,2,9'',
        checksum_buffer = ''5E'' @ [NUL], payload_index = 7, checksum_index = 3\<rparr> LF ev0 \<and>
   Message_Decode LF ev0
       \<lparr>decode_state = RECORDING_CHECKSUM, payload_buffer = payload_buf ''SHO,2,9'',
        checksum_buffer = ''5E'' @ [NUL], payload_index = 7, checksum_index = 3\<rparr> =
     Some (STANDARD_ERROR, ev0\<lparr>etype := BB_EVENT_ERROR\<rparr>,
       \<lparr>decode_state = RECORDING_CHECKSUM, payload_buffer = payload_buf ''SHO,2,9'',
        checksum_buffer = ''5E'' @ [NUL], payload_index = 7, checksum_index = 3\<rparr>\<lparr>decode_state := WAIT_FOR_START_DELIMITER\<rparr>))"
  (is "?A \<and> ?B \<and> ?C \<and> ?D \<and> ?E")
proof -
  {
  let ?s = "\<lparr>decode_state = RECORDING_PAYLOAD, payload_buffer = payload_buf ''SH'',
        checksum_buffer = [NUL, NUL, NUL], payload_index = 2, checksum_index = 0\<rparr>"
  have h: "decode_stream ''$SH'' ev0 decoder_init = Some (replicate 3 (SUCCESS, ev0), ?s)"
    by code_simp
  have k: "framing_error ?s (CHR ''$'')" by code_simp
  then have m: "malformation ?s (CHR ''$'') ev0" by (simp add: malformation_def)
  from C4_errors_resynchronise[OF h, of "CHR ''$''" ev0] obtain r ev' d' where
    "Message_Decode (CHR ''$'') ev0 ?s = Some (r, ev', d')"
    "malformation ?s (CHR ''$'') ev0 \<longrightarrow>
       r = STANDARD_ERROR \<and> ev' = ev0\<lparr>etype := BB_EVENT_ERROR\<rparr> \<and> d' = ?s\<lparr>decode_state := WAIT_FOR_START_DELIMITER\<rparr>"
    by blast
  with m have "Message_Decode (CHR ''$'') ev0 ?s =
      Some (STANDARD_ERROR, ev0\<lparr>etype := BB_EVENT_ERROR\<rparr>, ?s\<lparr>decode_state := WAIT_FOR_START_DELIMITER\<rparr>)"
    by simp
  with h k have a: "?A" by blast
  }
  note a = this
  {
  let ?s = "\<lparr>decode_state = RECORDING_PAYLOAD, payload_buffer = payload_buf (replicate 76 (CHR ''A'')),
        checksum_buffer = [NUL, NUL, NUL], payload_index = 76, checksum_index = 0\<rparr>"
  have h: "decode_stream (CHR ''$'' # replicate 76 (CHR ''A'')) ev0 decoder_init = Some (replicate 77 (SUCCESS, ev0), ?s)"
    by code_simp
  have k: "oversized_payload ?s (CHR ''A'')" by code_simp
  then have m: "malformation ?s (CHR ''A'') ev0" by (simp add: malformation_def)
  from C4_errors_resynchronise[OF h, of "CHR ''A''" ev0] obtain r ev' d' where
    "Message_Decode (CHR ''A'') ev0 ?s = Some (r, ev', d')"
    "malformation ?s (CHR ''A'') ev0 \<longrightarrow>
       r = STANDARD_ERROR \<and> ev' = ev0\<lparr>etype := BB_EVENT_ERROR\<rparr> \<and> d' = ?s\<lparr>decode_state := WAIT_FOR_START_DELIMITER\<rparr>"
    by blast
  with m have "Message_Decode (CHR ''A'') ev0 ?s =
      Some (STANDARD_ERROR, ev0\<lparr>etype := BB_EVENT_ERROR\<rparr>, ?s\<lparr>decode_state := WAIT_FOR_START_DELIMITER\<rparr>)"
    by simp
  with h k have b: "?B" by blast
  }
  note b = this
  {
  let ?s = "\<lparr>decode_state = RECORDING_CHECKSUM, payload_buffer = payload_buf ''SHO,2,9'',
        checksum_buffer = ''5'' @ [NUL, NUL], payload_index = 7, checksum_index = 1\<rparr>"
  have h: "decode_stream ''$SHO,2,9*5'' ev0 decoder_init = Some (replicate 10 (SUCCESS, ev0), ?s)"
    by code_simp
  have k: "bad_checksum_character ?s (CHR ''G'')" by code_simp
  then have m: "malformation ?s (CHR ''G'') ev0" by (simp add: malformation_def)
  from C4_errors_resynchronise[OF h, of "CHR ''G''" ev0] obtain r ev' d' where
    "Message_Decode (CHR ''G'') ev0 ?s = Some (r, ev', d')"
    "malformation ?s (CHR ''G'') ev0 \<longrightarrow>
       r = STANDARD_ERROR \<and> ev' = ev0\<lparr>etype := BB_EVENT_ERROR\<rparr> \<and> d' = ?s\<lparr>decode_state := WAIT_FOR_START_DELIMITER\<rparr>"
    by blast
  with m have "Message_Decode (CHR ''G'') ev0 ?s =
      Some (STANDARD_ERROR, ev0\<lparr>etype := BB_EVENT_ERROR\<rparr>, ?s\<lparr>decode_state := WAIT_FOR_START_DELIMITER\<rparr>)"
    by simp
  with h k have c: "?C" by blast
  }
  note c = this
  {
  let ?s = "\<lparr>decode_state = RECORDING_CHECKSUM, payload_buffer = payload_buf ''SHO,2,9'',
        checksum_buffer = ''5F'' @ [NUL], payload_index = 7, checksum_index = 2\<rparr>"
  have h: "decode_stream ''$SHO,2,9*5F'' ev0 decoder_init = Some (replicate 11 (SUCCESS, ev0), ?s)"
    by code_simp
  have k: "framing_error ?s LF" by code_simp
  then have m: "malformation ?s LF ev0" by (simp add: malformation_def)
  from C4_errors_resynchronise[OF h, of "LF" ev0] obtain r ev' d' where
    "Message_Decode LF ev0 ?s = Some (r, ev', d')"
    "malformation ?s LF ev0 \<longrightarrow>
       r = STANDARD_ERROR \<and> ev' = ev0\<lparr>etype := BB_EVENT_ERROR\<rparr> \<and> d' = ?s\<lparr>decode_state := WAIT_FOR_START_DELIMITER\<rparr>"
    by blast
  with m have "Message_Decode LF ev0 ?s =
      Some (STANDARD_ERROR, ev0\<lparr>etype := BB_EVENT_ERROR\<rparr>, ?s\<lparr>decode_state := WAIT_FOR_START_DELIMITER\<rparr>)"
    by simp
  with h k have d: "?D" by blast
  }
  note d = this
  {
  let ?s = "\<lparr>decode_state = RECORDING_CHECKSUM, payload_buffer = payload_buf ''SHO,2,9'',
        checksum_buffer = ''5E'' @ [NUL], payload_index = 7, checksum_index = 3\<rparr>"
  have h: "decode_stream (''$SHO,2,9*5E'' @ [CR]) ev0 decoder_init = Some (replicate 12 (SUCCESS, ev0), ?s)"
    by code_simp
  have k: "parse_failure ?s LF ev0" by code_simp
  then have m: "malformation ?s LF ev0" by (simp add: malformation_def)
  from C4_errors_resynchronise[OF h, of "LF" ev0] obtain r ev' d' where
    "Message_Decode LF ev0 ?s = Some (r, ev', d')"
    "malformation ?s LF ev0 \<longrightarrow>
       r = STANDARD_ERROR \<and> ev' = ev0\<lparr>etype := BB_EVENT_ERROR\<rparr> \<and> d' = ?s\<lparr>decode_state := WAIT_FOR_START_DELIMITER\<rparr>"
    by blast
  with m have "Message_Decode LF ev0 ?s =
      Some (STANDARD_ERROR, ev0\<lparr>etype := BB_EVENT_ERROR\<rparr>, ?s\<lparr>decode_state := WAIT_FOR_START_DELIMITER\<rparr>)"
    by simp
  with h k have e: "?E" by blast
  }
  note e = this
  from a b c d e show ?thesis by blast
qed

text \<open>
  Claim C5, as the spec states it, with a payload of at most 75 bytes: refuted.  A frame
  whose payload has 76 bytes is recorded without an error, handed to the parser and
  accepted.
\<close>

theorem C5_payload_of_76_bytes_accepted:
  "length (''CHA,1'' @ replicate 71 (CHR ''A'')) = 76 \<and>
   decoded_types (''$CHA,1'' @ replicate 71 (CHR ''A'') @ ''*16'' @ [CR, LF])
     = Some (replicate 81 BB_EVENT_NO_EVENT @ [BB_EVENT_CHA_RECEIVED])"
  by code_simp

text \<open>
  Claim C5, amended: the limit is \<^verbatim>\<open>MESSAGE_MAX_PAYLOAD_LEN\<close>, which is 76.  After any
  received bytes the payload index is at most 76 and the string in the payload buffer, the
  only payload the parser is ever given, has at most 76 characters; and when 76 payload
  bytes are recorded, any byte but the checksum delimiter makes \<^verbatim>\<open>Message_Decode\<close>
  report \<^verbatim>\<open>BB_EVENT_ERROR\<close> and wait for the start delimiter.
\<close>

theorem C5_payload_limit_is_76:
  assumes "decode_stream bs ev_first decoder_init = Some (out, d)"
  shows "MESSAGE_MAX_PAYLOAD_LEN = 76 \<and> payload_index d \<le> 76 \<and>
         (\<exists>s. cstr_of (payload_buffer d) = Some s \<and> length s \<le> 76) \<and>
         (decode_state d = RECORDING_PAYLOAD \<and> payload_index d = 76 \<and> c \<noteq> CHR ''*'' \<longrightarrow>
            Message_Decode c ev d =
              Some (STANDARD_ERROR, ev\<lparr>etype := BB_EVENT_ERROR\<rparr>,
                    d\<lparr>decode_state := WAIT_FOR_START_DELIMITER\<rparr>))"
proof -
  from reachable_tracks[OF assms] obtain p where
    p: "length p \<le> 76" "payload_buffer d = payload_buf p" "payload_index d \<le> 76"
    unfolding tracks_def by blast
  have "cstr_of (payload_buffer d) = Some (cstr p) \<and> length (cstr p) \<le> 76"
    using p(1,2) length_cstr[of p] by (simp add: cstr_of_payload_buf)
  moreover have "decode_state d = RECORDING_PAYLOAD \<and> payload_index d = 76 \<and> c \<noteq> CHR ''*'' \<longrightarrow>
            Message_Decode c ev d =
              Some (STANDARD_ERROR, ev\<lparr>etype := BB_EVENT_ERROR\<rparr>,
                    d\<lparr>decode_state := WAIT_FOR_START_DELIMITER\<rparr>)"
    by (simp add: Message_Decode_def MAXP Let_def)
  ultimately show ?thesis using p(3) MAXP by blast
qed

theorem C5_payload_limit_is_76_witness:
  "decode_stream (CHR ''$'' # replicate 76 (CHR ''A'')) ev0 decoder_init =
     Some (replicate 77 (SUCCESS, ev0),
           \<lparr>decode_state = RECORDING_PAYLOAD, payload_buffer = replicate 76 (CHR ''A'') @ [NUL],
            checksum_buffer = [NUL, NUL, NUL], payload_index = 76, checksum_index = 0\<rparr>) \<and>
   Message_Decode (CHR ''A'') ev0
       \<lparr>decode_state = RECORDING_PAYLOAD, payload_buffer = replicate 76 (CHR ''A'') @ [NUL],
        checksum_buffer = [NUL, NUL, NUL], payload_index = 76, checksum_index = 0\<rparr> =
     Some (STANDARD_ERROR, ev0\<lparr>etype := BB_EVENT_ERROR\<rparr>,
           \<lparr>decode_state = WAIT_FOR_START_DELIMITER, payload_buffer = replicate 76 (CHR ''A'') @ [NUL],
            checksum_buffer = [NUL, NUL, NUL], payload_index = 76, checksum_index = 0\<rparr>)"
proof -
  let ?d = "\<lparr>decode_state = RECORDING_PAYLOAD, payload_buffer = replicate 76 (CHR ''A'') @ [NUL],
            checksum_buffer = [NUL, NUL, NUL], payload_index = 76, checksum_index = 0\<rparr>"
  have h: "decode_stream (CHR ''$'' # replicate 76 (CHR ''A'')) ev0 decoder_init =
             Some (replicate 77 (SUCCESS, ev0), ?d)"
    by code_simp
  from C5_payload_limit_is_76[OF h, of "CHR ''A''" ev0]
  have "decode_state ?d = RECORDING_PAYLOAD \<and> payload_index ?d = 76 \<and> CHR ''A'' \<noteq> CHR ''*'' \<longrightarrow>
          Message_Decode (CHR ''A'') ev0 ?d =
            Some (STANDARD_ERROR, ev0\<lparr>etype := BB_EVENT_ERROR\<rparr>,
                  ?d\<lparr>decode_state := WAIT_FOR_START_DELIMITER\<rparr>)"
    by blast
  then show ?thesis using h by simp
qed

text \<open>
  Claim C10.  Whatever bytes are fed to \<^verbatim>\<open>Message_Decode\<close> from its initial state, every
  call returns (no array is written outside its bounds, no string is read past its array),
  with one event per byte; the payload index stays between 0 and
  \<^verbatim>\<open>MESSAGE_MAX_PAYLOAD_LEN\<close>, the checksum index between 0 and 3, and the buffers keep
  their sizes of \<^verbatim>\<open>MESSAGE_MAX_PAYLOAD_LEN + 1\<close> and \<^verbatim>\<open>MESSAGE_CHECKSUM_LEN + 1\<close>.
\<close>

theorem C10_decoder_stays_in_bounds:
  "\<exists>out d. decode_stream bs ev decoder_init = Some (out, d) \<and> length out = length bs \<and>
      0 \<le> payload_index d \<and> payload_index d \<le> int MESSAGE_MAX_PAYLOAD_LEN \<and>
      0 \<le> checksum_index d \<and> checksum_index d \<le> int MESSAGE_CHECKSUM_LEN + 1 \<and>
      length (payload_buffer d) = MESSAGE_MAX_PAYLOAD_LEN + 1 \<and>
      length (checksum_buffer d) = MESSAGE_CHECKSUM_LEN + 1"
proof -
  from decode_stream_tracks[OF tracks_init, of bs ev] obtain out d where
    r: "decode_stream bs ev decoder_init = Some (out, d)" "length out = length bs" and t: "tracks bs d"
    by auto
  from t have "0 \<le> payload_index d \<and> payload_index d \<le> 76 \<and>
      0 \<le> checksum_index d \<and> checksum_index d \<le> 3 \<and>
      length (payload_buffer d) = 77 \<and> length (checksum_buffer d) = 3"
    unfolding tracks_def by (auto simp: length_payload_buf)
  then show ?thesis using r by (simp add: MAXP MESSAGE_CHECKSUM_LEN_def)
qed

section \<open>The claims about the parser\<close>

text \<open>
  Claim C6: the code departs from it.  The checksum string \<open>5F\<close> matches the payload
  \<open>SHO,2,9\<close>.  Flipping bit 5 of its second character gives \<open>5f\<close>, which
  \<^verbatim>\<open>Message_ParseMessage\<close> reads as the same number: the call succeeds with the same
  \<^verbatim>\<open>BB_EVENT_SHO_RECEIVED\<close> event, where the claim, and the comment in \<^verbatim>\<open>Message.c\<close> on
  upper-case letters, ask for an error.
\<close>

theorem C6_case_flip_accepted:
  "flip_char 5 (CHR ''F'') = CHR ''f'' \<and>
   Message_ParseMessage ''SHO,2,9'' [CHR ''5'', CHR ''F''] ev0
     = (SUCCESS, ev0\<lparr>etype := BB_EVENT_SHO_RECEIVED, eparam0 := 2, eparam1 := 9\<rparr>) \<and>
   Message_ParseMessage ''SHO,2,9'' [CHR ''5'', flip_char 5 (CHR ''F'')] ev0
     = (SUCCESS, ev0\<lparr>etype := BB_EVENT_SHO_RECEIVED, eparam0 := 2, eparam1 := 9\<rparr>)"
  by code_simp

text \<open>
  Claim C7: the code departs from it.  \<^verbatim>\<open>Message_ParseMessage\<close> compares only the number
  of fields that \<^verbatim>\<open>sscanf\<close> converted and never looks at what follows the last one.  So it
  accepts the \<open>CHA\<close> payload \<open>CHA,1,2\<close>, which has a second field after the declared one,
  and the payload \<open>CHA, -1x\<close>, whose field has white space and a sign before the digit and a
  letter after it (the event's parameter is then 65535); each with its matching checksum.
  The claim, and the function's own description (\<^verbatim>\<open>STANDARD_ERROR\<close> if the message does not
  match any message template), ask for \<^verbatim>\<open>BB_EVENT_ERROR\<close> on both.
\<close>

theorem C7_extra_input_accepted:
  "Message_ParseMessage ''CHA,1,2'' ''49'' ev0 = (SUCCESS, ev0\<lparr>etype := BB_EVENT_CHA_RECEIVED, eparam0 := 1\<rparr>) \<and>
   Message_ParseMessage ''CHA, -1x'' ''22'' ev0
     = (SUCCESS, ev0\<lparr>etype := BB_EVENT_CHA_RECEIVED, eparam0 := 65535\<rparr>)"
  by code_simp

section \<open>The agent\<close>

text \<open>The worked examples of the spec for its negotiation functions.\<close>

lemma negotiation_examples:
  "commit 3 = 9" "commit 12345 = 43182"
  "coinFlip 0 0 = TAILS" "coinFlip 1 0 = HEADS" "coinFlip 0xAAAA 0x5555 = TAILS"
  by code_simp+

lemma fold_pair:
  "fold (\<lambda>x (a, b). (f x a, g x b)) xs (a, b) = (fold f xs a, fold g xs b)"
  by (induction xs arbitrary: a b) auto

lemma fill_row:
  "k \<le> length xs \<Longrightarrow> fold (\<lambda>c r. r[c := v]) [0..<k] xs = replicate k v @ drop k xs"
proof (induction k)
  case 0
  then show ?case by simp
next
  case (Suc k)
  then have k: "k < length xs" by simp
  have "(replicate k v @ drop k xs)[k := v] = replicate k v @ (drop k xs)[0 := v]"
    by (simp add: list_update_append)
  also have "(drop k xs)[0 := v] = v # drop (Suc k) xs"
    using k by (simp add: Cons_nth_drop_Suc[symmetric])
  finally show ?case
    using Suc by (simp add: replicate_append_same)
qed

lemma fill_row_whole:
  "length xs = n \<Longrightarrow> fold (\<lambda>c r. r[c := v]) [0..<n] xs = replicate n v"
  using fill_row[of n xs v] by simp

lemma fold_row_update:
  "r < length g \<Longrightarrow>
   fold (\<lambda>c g. g[r := (g ! r)[c := v]]) cs g = g[r := fold (\<lambda>c xs. xs[c := v]) cs (g ! r)]"
  by (induction cs arbitrary: g) simp_all

lemma fill_grid:
  "k \<le> length g \<Longrightarrow> list_all (\<lambda>xs. length xs = n) g \<Longrightarrow>
   fold (\<lambda>r g. fold (\<lambda>c g. g[r := (g ! r)[c := v]]) [0..<n] g) [0..<k] g
     = replicate k (replicate n v) @ drop k g"
proof (induction k)
  case 0
  then show ?case by simp
next
  case (Suc k)
  then have k: "k < length g" by simp
  let ?h = "replicate k (replicate n v) @ drop k g"
  have len: "k < length ?h" using k by simp
  have row: "length (?h ! k) = n"
    using k Suc.prems(2) by (simp add: nth_append list_all_length)
  have "fold (\<lambda>c g. g[k := (g ! k)[c := v]]) [0..<n] ?h = ?h[k := replicate n v]"
    using fold_row_update[OF len, of v "[0..<n]"] fill_row_whole[OF row, of v] by simp
  also have "\<dots> = replicate k (replicate n v) @ (drop k g)[0 := replicate n v]"
    by (simp add: list_update_append)
  also have "(drop k g)[0 := replicate n v] = replicate n v # drop (Suc k) g"
    using k by (simp add: Cons_nth_drop_Suc[symmetric])
  finally show ?case
    using Suc by (simp add: replicate_append_same)
qed

lemma fold_put_square:
  "fold (\<lambda>c f. put_square f r c v) cs f
     = f\<lparr>grid := fold (\<lambda>c g. g[r := (g ! r)[c := v]]) cs (grid f)\<rparr>"
  by (induction cs arbitrary: f) (simp_all add: put_square_def)

lemma fold_fold_put_square:
  "fold (\<lambda>r f. fold (\<lambda>c f. put_square f r c v) cs f) rs f
     = f\<lparr>grid := fold (\<lambda>r g. fold (\<lambda>c g. g[r := (g ! r)[c := v]]) cs g) rs (grid f)\<rparr>"
  by (induction rs arbitrary: f) (simp_all add: fold_put_square)

lemma fill_field:
  "field_wf f \<Longrightarrow>
   fold (\<lambda>r f. fold (\<lambda>c f. put_square f r c v) [0..<FIELD_COLS] f) [0..<FIELD_ROWS] f
     = f\<lparr>grid := replicate FIELD_ROWS (replicate FIELD_COLS v)\<rparr>"
  using fill_grid[of FIELD_ROWS "grid f" FIELD_COLS v]
  by (simp add: fold_fold_put_square field_wf_def)

lemma fold_pair_fun:
  "fold (\<lambda>x (a, b). (f x a, g x b)) xs = (\<lambda>(a, b). (fold f xs a, fold g xs b))"
  by (auto simp: fun_eq_iff fold_pair)

lemma FieldInit_wf:
  assumes "field_wf own" "field_wf opp"
  shows "FieldInit ext own opp =
     (\<lparr>grid = replicate FIELD_ROWS (replicate FIELD_COLS FIELD_SQUARE_EMPTY),
       smallBoatLives = 0, mediumBoatLives = 0, largeBoatLives = 0, hugeBoatLives = 0\<rparr>,
      \<lparr>grid = replicate FIELD_ROWS (replicate FIELD_COLS FIELD_SQUARE_UNKNOWN),
       smallBoatLives = FIELD_BOAT_SIZE_SMALL ext, mediumBoatLives = FIELD_BOAT_SIZE_MEDIUM ext,
       largeBoatLives = FIELD_BOAT_SIZE_LARGE ext, hugeBoatLives = FIELD_BOAT_SIZE_HUGE ext\<rparr>)"
  by (simp add: FieldInit_def fold_pair_fun fill_field[OF assms(1)] fill_field[OF assms(2)])

lemma AgentRun_same_live:
  assumes "same_live s t"
  shows "(AgentRun ext e s = None \<and> AgentRun ext e t = None) \<or>
         (\<exists>m s' t'. AgentRun ext e s = Some (m, s') \<and> AgentRun ext e t = Some (m, t') \<and> same_live s' t')"
proof (cases "etype e = BB_EVENT_RESET_BUTTON")
  case True
  then show ?thesis using assms
    by (simp add: AgentRun_def AgentInit_def emit_def same_live_def Let_def split: prod.splits)
next
  case False
  show ?thesis
  proof (cases "agentState t")
    case AGENT_STATE_START
    then show ?thesis using assms False
      by (auto simp: AgentRun_def emit_def same_live_def Let_def draw_screen_def split: option.splits)
  next
    case AGENT_STATE_CHALLENGING
    then show ?thesis using assms False
      by (auto simp: AgentRun_def emit_def same_live_def Let_def draw_screen_def split: option.splits)
  next
    case AGENT_STATE_ACCEPTING
    then show ?thesis using assms False
      by (auto simp: AgentRun_def emit_def same_live_def Let_def draw_screen_def split: option.splits)
  next
    case AGENT_STATE_ATTACKING
    then show ?thesis using assms False
      by (auto simp: AgentRun_def emit_def same_live_def Let_def draw_screen_def
            FieldUpdateKnowledge_def split: option.splits)
  next
    case AGENT_STATE_DEFENDING
    then show ?thesis using assms False
      by (auto simp: AgentRun_def emit_def same_live_def Let_def draw_screen_def split: option.splits)
  next
    case AGENT_STATE_WAITING_TO_SEND
    then show ?thesis using assms False
      by (auto simp: AgentRun_def emit_def same_live_def Let_def draw_screen_def split: option.splits)
  next
    case AGENT_STATE_END_SCREEN
    then show ?thesis using assms False
      by (auto simp: AgentRun_def emit_def same_live_def Let_def draw_screen_def split: option.splits)
  qed
qed

lemma observed_cons:
  "observed (case r of None \<Rightarrow> None | Some (ms, s) \<Rightarrow> Some (m # ms, s)) =
     map_option (\<lambda>(ms, st, fx). (m # ms, st, fx)) (observed r)"
  by (cases r) (auto simp: observed_def)

lemma AgentRun_all_same_live:
  "same_live s t \<Longrightarrow> observed (AgentRun_all ext es s) = observed (AgentRun_all ext es t)"
proof (induction es arbitrary: s t)
  case Nil
  then show ?case by (simp add: observed_def same_live_def)
next
  case (Cons e es)
  from AgentRun_same_live[OF Cons.prems, of ext e]
  consider "AgentRun ext e s = None" "AgentRun ext e t = None"
    | m s' t' where "AgentRun ext e s = Some (m, s')" "AgentRun ext e t = Some (m, t')" "same_live s' t'"
    by auto
  then show ?case
  proof cases
    case 1
    then show ?thesis by simp
  next
    case 2
    then show ?thesis using Cons.IH[OF 2(3)] by (simp add: observed_cons)
  qed
qed

text \<open>The state that the reset leaves.\<close>

lemma AgentRun_reset:
  assumes "etype event = BB_EVENT_RESET_BUTTON" and "field_wf (ownField s)" and "field_wf (oppField s)"
  shows "AgentRun ext event s = Some (no_message, reset_state ext s)"
  using assms
  by (simp add: AgentRun_def AgentInit_def emit_def no_message_def FieldInit_wf Let_def reset_state_def)

text \<open>What \<^verbatim>\<open>AgentRun\<close> does in state \<^verbatim>\<open>ACCEPTING\<close> with a revealed secret that verifies:
  the coin is flipped with \<^verbatim>\<open>event.param1\<close>.\<close>

lemma AgentRun_accepting_verified:
  assumes "agentState s = AGENT_STATE_ACCEPTING" and "etype event = BB_EVENT_REV_RECEIVED"
      and "NegotiationVerify ext (eparam0 event) (hashA s)"
      and "FieldAIDecideGuess ext (ai_vars s) (oppField s) = Some (guess, vars)"
  shows "outcome (AgentRun ext event s) =
           Some (MESSAGE_SHO,
                 if NegotiateCoinFlip ext (eparam1 event) (B s) = TAILS then AGENT_STATE_ATTACKING
                 else AGENT_STATE_DEFENDING)"
  using assms by (simp add: AgentRun_def outcome_def emit_def Let_def)

section \<open>The claims about the agent\<close>

text \<open>
  Claim C1: the code departs from it.  The frame \<open>$REV,1*5C\<close> decodes to
  \<^verbatim>\<open>BB_EVENT_REV_RECEIVED\<close> with \<open>param0 = 1\<close> and \<open>param1\<close> as the event structure held it,
  here 0.  In state \<^verbatim>\<open>ACCEPTING\<close> with commitment 1 and \<open>B = 0\<close> the secret verifies, and
  the coin flip of the revealed secret and \<open>B\<close> is \<^verbatim>\<open>HEADS\<close>, for which the claim asks for
  \<^verbatim>\<open>DEFENDING\<close>; \<^verbatim>\<open>AgentRun\<close> flips the coin with \<^verbatim>\<open>event.param1\<close>, gets \<^verbatim>\<open>TAILS\<close> and
  goes to \<^verbatim>\<open>ATTACKING\<close>.
\<close>

theorem C1_coin_flip_reads_param1:
  "Message_ParseMessage ''REV,1'' ''5C'' ev0 = (SUCCESS, ev0\<lparr>etype := BB_EVENT_REV_RECEIVED, eparam0 := 1\<rparr>) \<and>
   NegotiationVerify ext0 1 (hashA accepting0) \<and>
   NegotiateCoinFlip ext0 1 (B accepting0) = HEADS \<and>
   outcome (AgentRun ext0 (ev0\<lparr>etype := BB_EVENT_REV_RECEIVED, eparam0 := 1\<rparr>) accepting0)
     = Some (MESSAGE_SHO, AGENT_STATE_ATTACKING)"
  by code_simp

text \<open>
  Claim C2.  In state \<^verbatim>\<open>ACCEPTING\<close>, on a \<^verbatim>\<open>BB_EVENT_REV_RECEIVED\<close> event whose secret
  does not verify against \<^verbatim>\<open>hashA\<close>, \<^verbatim>\<open>AgentRun\<close> returns a message of type
  \<^verbatim>\<open>MESSAGE_NONE\<close>, goes to \<^verbatim>\<open>END_SCREEN\<close> (so neither to \<^verbatim>\<open>ATTACKING\<close> nor to
  \<^verbatim>\<open>DEFENDING\<close>), shows \<open>ERROR: Cheating Detected\<close>, and changes nothing else.
\<close>

theorem C2_cheat_ends_match:
  assumes "agentState s = AGENT_STATE_ACCEPTING" and "etype event = BB_EVENT_REV_RECEIVED"
      and "\<not> NegotiationVerify ext (eparam0 event) (hashA s)"
  shows "AgentRun ext event s =
           Some (no_message,
                 s\<lparr>agentState := AGENT_STATE_END_SCREEN,
                   effects := effects s @
                     [printf (''ACCEPTING -> END SCREEN'' @ [LF]), OLED_Clear OLED_COLOR_BLACK,
                      OLED_DrawString ''ERROR: Cheating Detected'', OLED_Update]\<rparr>)"
  using assms by (simp add: AgentRun_def emit_def no_message_def)

theorem C2_cheat_ends_match_witness:
  "agentState (accepting0\<lparr>hashA := 9\<rparr>) = AGENT_STATE_ACCEPTING \<and>
   etype (ev0\<lparr>etype := BB_EVENT_REV_RECEIVED, eparam0 := 4\<rparr>) = BB_EVENT_REV_RECEIVED \<and>
   \<not> NegotiationVerify ext0 (eparam0 (ev0\<lparr>etype := BB_EVENT_REV_RECEIVED, eparam0 := 4\<rparr>)) (hashA (accepting0\<lparr>hashA := 9\<rparr>)) \<and>
   AgentRun ext0 (ev0\<lparr>etype := BB_EVENT_REV_RECEIVED, eparam0 := 4\<rparr>) (accepting0\<lparr>hashA := 9\<rparr>) =
     Some (no_message,
           accepting0\<lparr>hashA := 9, agentState := AGENT_STATE_END_SCREEN,
             effects := [printf (''ACCEPTING -> END SCREEN'' @ [LF]), OLED_Clear OLED_COLOR_BLACK,
                         OLED_DrawString ''ERROR: Cheating Detected'', OLED_Update]\<rparr>)"
proof -
  let ?s = "accepting0\<lparr>hashA := 9\<rparr>" and ?e = "ev0\<lparr>etype := BB_EVENT_REV_RECEIVED, eparam0 := 4\<rparr>"
  have h1: "agentState ?s = AGENT_STATE_ACCEPTING" by (simp add: accepting0_def)
  have h2: "etype ?e = BB_EVENT_REV_RECEIVED" by simp
  have h3: "\<not> NegotiationVerify ext0 (eparam0 ?e) (hashA ?s)" by code_simp
  have e: "effects ?s = []" by (simp add: accepting0_def agent0_def)
  from C2_cheat_ends_match[OF h1 h2 h3] h1 h2 h3 show ?thesis by (simp add: e)
qed

text \<open>
  Claim C8.  For every state and every event that is neither the reset event nor one the
  state tests for, \<^verbatim>\<open>AgentRun\<close> returns a message of type \<^verbatim>\<open>MESSAGE_NONE\<close> and leaves
  the state, \<open>A\<close>, \<open>B\<close> and \<open>hashA\<close> as they were; all it may change is what it draws and,
  in \<^verbatim>\<open>END_SCREEN\<close>, the flag that the end screen has been drawn.
\<close>

theorem C8_unhandled_event_ignored:
  assumes "etype event \<noteq> BB_EVENT_RESET_BUTTON" and "\<not> handled (agentState s) (etype event)"
  shows "\<exists>s'. AgentRun ext event s = Some (no_message, s') \<and>
              agentState s' = agentState s \<and> A s' = A s \<and> B s' = B s \<and> hashA s' = hashA s \<and>
              s' = s\<lparr>effects := effects s', endScreenDrawn := endScreenDrawn s'\<rparr>"
  using assms
  by (cases "agentState s") (simp_all add: AgentRun_def emit_def no_message_def handled_def Let_def)

theorem C8_unhandled_event_ignored_witness:
  "etype (ev0\<lparr>etype := BB_EVENT_ERROR\<rparr>) \<noteq> BB_EVENT_RESET_BUTTON \<and>
   \<not> handled (agentState accepting0) (etype (ev0\<lparr>etype := BB_EVENT_ERROR\<rparr>)) \<and>
   AgentRun ext0 (ev0\<lparr>etype := BB_EVENT_ERROR\<rparr>) accepting0 = Some (no_message, accepting0)"
proof -
  let ?e = "ev0\<lparr>etype := BB_EVENT_ERROR\<rparr>"
  have h1: "etype ?e \<noteq> BB_EVENT_RESET_BUTTON" by simp
  have h2: "\<not> handled (agentState accepting0) (etype ?e)"
    by (simp add: accepting0_def handled_def)
  from C8_unhandled_event_ignored[OF h1 h2, of ext0] obtain s' where
    r: "AgentRun ext0 ?e accepting0 = Some (no_message, s')" by blast
  have "AgentRun ext0 ?e accepting0 = Some (no_message, accepting0)"
    by (simp add: AgentRun_def accepting0_def no_message_def)
  then show ?thesis using h1 h2 r by simp
qed

text \<open>
  Claim C9.  From every state, a \<^verbatim>\<open>BB_EVENT_RESET_BUTTON\<close> event makes \<^verbatim>\<open>AgentRun\<close>
  return a message of type \<^verbatim>\<open>MESSAGE_NONE\<close> and leave the state \<^verbatim>\<open>START\<close>, with \<open>A\<close>, \<open>B\<close>,
  \<open>hashA\<close> and the turn counter zero, no player's turn, the end screen not drawn, the own
  field empty with no lives and the opponent's field unknown with full lives.  The two
  variables of \<^verbatim>\<open>Agent.c\<close> that the reset does not write, \<^verbatim>\<open>own_guess\<close> and
  \<^verbatim>\<open>turn_order\<close>, carry nothing over: whatever state \<open>t\<close> the agent was reset from instead
  of \<open>s\<close>, every later sequence of events gives the same messages, states and recorded
  calls.
\<close>

theorem C9_reset_reinitialises:
  assumes "etype event = BB_EVENT_RESET_BUTTON" and "field_wf (ownField s)" and "field_wf (oppField s)"
      and "field_wf (ownField t)" and "field_wf (oppField t)"
      and "ai_vars t = ai_vars s" and "rand_calls t = rand_calls s" and "effects t = effects s"
  shows "AgentRun ext event s =
           Some (no_message,
                 s\<lparr>agentState := AGENT_STATE_START, turn_counter := 0, A := 0, B := 0, hashA := 0,
                   playerTurn := FIELD_OLED_TURN_NONE, endScreenDrawn := False,
                   ownField :=
                     \<lparr>grid = replicate FIELD_ROWS (replicate FIELD_COLS FIELD_SQUARE_EMPTY),
                      smallBoatLives = 0, mediumBoatLives = 0, largeBoatLives = 0, hugeBoatLives = 0\<rparr>,
                   oppField :=
                     \<lparr>grid = replicate FIELD_ROWS (replicate FIELD_COLS FIELD_SQUARE_UNKNOWN),
                      smallBoatLives = FIELD_BOAT_SIZE_SMALL ext,
                      mediumBoatLives = FIELD_BOAT_SIZE_MEDIUM ext,
                      largeBoatLives = FIELD_BOAT_SIZE_LARGE ext,
                      hugeBoatLives = FIELD_BOAT_SIZE_HUGE ext\<rparr>,
                   effects := effects s @
                     [OLED_Init, OLED_Clear OLED_COLOR_BLACK, OLED_DrawString banner, OLED_Update]\<rparr>) \<and>
         observed (AgentRun_all ext (event # es) t) = observed (AgentRun_all ext (event # es) s)"
proof -
  obtain s' where s: "AgentRun ext event s = Some (no_message, s')" and s': "s' = reset_state ext s"
    using AgentRun_reset[OF assms(1,2,3)] by simp
  obtain t' where t: "AgentRun ext event t = Some (no_message, t')" and t': "t' = reset_state ext t"
    using AgentRun_reset[OF assms(1,4,5)] by simp
  have "same_live t' s'"
    using assms(6,7,8) by (simp add: s' t' reset_state_def same_live_def)
  then have "observed (AgentRun_all ext es t') = observed (AgentRun_all ext es s')"
    by (rule AgentRun_all_same_live)
  then have "observed (AgentRun_all ext (event # es) t) = observed (AgentRun_all ext (event # es) s)"
    by (simp add: s t observed_cons)
  then show ?thesis
    using s by (simp add: s' reset_state_def)
qed

theorem C9_reset_reinitialises_witness:
  "etype (ev0\<lparr>etype := BB_EVENT_RESET_BUTTON\<rparr>) = BB_EVENT_RESET_BUTTON \<and>
   field_wf (ownField accepting0) \<and> field_wf (oppField accepting0) \<and>
   field_wf (ownField agent0) \<and> field_wf (oppField agent0) \<and>
   ai_vars agent0 = ai_vars accepting0 \<and> rand_calls agent0 = rand_calls accepting0 \<and>
   effects agent0 = effects accepting0 \<and>
   AgentRun ext0 (ev0\<lparr>etype := BB_EVENT_RESET_BUTTON\<rparr>) accepting0 =
     Some (no_message,
           agent0\<lparr>effects := [OLED_Init, OLED_Clear OLED_COLOR_BLACK, OLED_DrawString banner, OLED_Update]\<rparr>) \<and>
   observed (AgentRun_all ext0 [ev0\<lparr>etype := BB_EVENT_RESET_BUTTON\<rparr>, ev0\<lparr>etype := BB_EVENT_REV_RECEIVED\<rparr>] agent0)
     = observed (AgentRun_all ext0 [ev0\<lparr>etype := BB_EVENT_RESET_BUTTON\<rparr>, ev0\<lparr>etype := BB_EVENT_REV_RECEIVED\<rparr>]
                   accepting0)"
proof -
  let ?e = "ev0\<lparr>etype := BB_EVENT_RESET_BUTTON\<rparr>"
  have h1: "etype ?e = BB_EVENT_RESET_BUTTON" by simp
  have h2: "field_wf (ownField accepting0)" "field_wf (oppField accepting0)"
    "field_wf (ownField agent0)" "field_wf (oppField agent0)"
    by (simp_all add: accepting0_def agent0_def field0_def field_wf_def list_all_length)
  have h3: "ai_vars agent0 = ai_vars accepting0" "rand_calls agent0 = rand_calls accepting0"
    "effects agent0 = effects accepting0"
    by (simp_all add: accepting0_def)
  have sz: "FIELD_BOAT_SIZE_SMALL ext0 = 3" "FIELD_BOAT_SIZE_MEDIUM ext0 = 4"
    "FIELD_BOAT_SIZE_LARGE ext0 = 5" "FIELD_BOAT_SIZE_HUGE ext0 = 6"
    by (simp_all add: ext0_def)
  have st: "accepting0\<lparr>agentState := AGENT_STATE_START, turn_counter := 0, A := 0, B := 0, hashA := 0,
               playerTurn := FIELD_OLED_TURN_NONE, endScreenDrawn := False,
               ownField :=
                 \<lparr>grid = replicate FIELD_ROWS (replicate FIELD_COLS FIELD_SQUARE_EMPTY),
                  smallBoatLives = 0, mediumBoatLives = 0, largeBoatLives = 0, hugeBoatLives = 0\<rparr>,
               oppField :=
                 \<lparr>grid = replicate FIELD_ROWS (replicate FIELD_COLS FIELD_SQUARE_UNKNOWN),
                  smallBoatLives = FIELD_BOAT_SIZE_SMALL ext0,
                  mediumBoatLives = FIELD_BOAT_SIZE_MEDIUM ext0,
                  largeBoatLives = FIELD_BOAT_SIZE_LARGE ext0,
                  hugeBoatLives = FIELD_BOAT_SIZE_HUGE ext0\<rparr>,
               effects := effects accepting0 @
                 [OLED_Init, OLED_Clear OLED_COLOR_BLACK, OLED_DrawString banner, OLED_Update]\<rparr>
            = agent0\<lparr>effects := [OLED_Init, OLED_Clear OLED_COLOR_BLACK, OLED_DrawString banner,
                                  OLED_Update]\<rparr>"
    by (simp add: accepting0_def agent0_def field0_def sz)
  note r = C9_reset_reinitialises[OF h1 h2 h3, of ext0 "[ev0\<lparr>etype := BB_EVENT_REV_RECEIVED\<rparr>]", unfolded st]
  from r h1 h2 h3 show ?thesis by blast
qed

end
